theory Spec2Isabelle
  imports Complex_Main
begin

section \<open>Host primitives used by the sketch\<close>

text \<open>
  The sketch runs inside a drawing library that supplies vectors, a random source, a
  noise function and a millisecond clock. JavaScript numbers are idealised as reals.
  A vector is its pair of coordinates; the library operations below are the ones the
  source calls: \<^verbatim>\<open>createVector\<close>, \<^verbatim>\<open>p5.Vector.fromAngle\<close>, \<^verbatim>\<open>add\<close> and
  \<^verbatim>\<open>mult\<close>. The library's \<^verbatim>\<open>mag\<close> is not among them: it is computed in floating
  point from rounded coordinates, the placement test of
  \<^verbatim>\<open>calculateParticlePositions\<close> is sensitive to its last bit, and so it is a
  parameter of the host (below). \<open>magnitude\<close> is the exact length, which a host may or
  may not return.
\<close>

type_synonym vector = "real \<times> real"

definition createVector :: "real \<Rightarrow> real \<Rightarrow> vector" where
  "createVector x y = (x, y)"

definition fromAngle :: "real \<Rightarrow> real \<Rightarrow> vector" where
  "fromAngle a len = (len * cos a, len * sin a)"

definition vector_add :: "vector \<Rightarrow> vector \<Rightarrow> vector" where
  "vector_add v w = (fst v + fst w, snd v + snd w)"

definition mult :: "vector \<Rightarrow> real \<Rightarrow> vector" where
  "mult v n = (fst v * n, snd v * n)"

definition magnitude :: "vector \<Rightarrow> real" where
  "magnitude v = sqrt (fst v * fst v + snd v * snd v)"

definition HALF_PI :: real where
  "HALF_PI = pi / 2"

text \<open>
  Reading a property of \<^verbatim>\<open>undefined\<close> (what an out-of-range array read yields)
  raises a TypeError; it is the only way the modelled code can fail.
\<close>

datatype js_error = TypeError

definition array_get :: "'a list \<Rightarrow> nat \<Rightarrow> js_error + 'a" where
  "array_get xs i = (if i < length xs then Inr (xs ! i) else Inl TypeError)"

section \<open>Path on a store of objects\<close>

text \<open>
  \<^verbatim>\<open>Path.copy\<close> and \<^verbatim>\<open>Path.addSegment\<close> are about which objects are shared, so
  they are modelled on an explicit store: vectors, path segments and arrays are objects
  with an address, a Path holds the addresses of its origin vector and of its segment
  array, and \<^verbatim>\<open>new\<close> takes the next unused address.
\<close>

type_synonym ref = nat

datatype object = VectorObj real real | PathSegmentObj real real | ArrayObj "ref list"

record store =
  objects :: "ref \<Rightarrow> object option"
  next_ref :: ref

definition alloc :: "object \<Rightarrow> store \<Rightarrow> ref \<times> store" where
  "alloc obj st =
     (next_ref st, st\<lparr>objects := (objects st)(next_ref st \<mapsto> obj),
                       next_ref := Suc (next_ref st)\<rparr>)"

record Path =
  originPosition :: ref
  originHeading :: real
  segments :: ref

definition PathSegment_copy :: "ref \<Rightarrow> store \<Rightarrow> js_error + ref \<times> store" where
  "PathSegment_copy this st =
     (case objects st this of
        Some (PathSegmentObj a d) \<Rightarrow> Inr (alloc (PathSegmentObj a d) st)
      | _ \<Rightarrow> Inl TypeError)"

definition Path_new :: "store \<Rightarrow> Path \<times> store" where
  "Path_new st =
     (let (v, st1) = alloc (VectorObj 0 0) st;
          (a, st2) = alloc (ArrayObj []) st1
      in (\<lparr>Path.originPosition = v, Path.originHeading = 0, Path.segments = a\<rparr>, st2))"

definition Path_addSegment :: "Path \<Rightarrow> ref \<Rightarrow> store \<Rightarrow> js_error + store" where
  "Path_addSegment this segment st =
     (case objects st (Path.segments this) of
        Some (ArrayObj rs) \<Rightarrow>
          Inr (st\<lparr>objects := (objects st)(Path.segments this \<mapsto> ArrayObj (rs @ [segment]))\<rparr>)
      | _ \<Rightarrow> Inl TypeError)"

fun Path_copy_forEach :: "ref list \<Rightarrow> Path \<Rightarrow> store \<Rightarrow> js_error + store" where
  "Path_copy_forEach [] path st = Inr st"
| "Path_copy_forEach (segment # rest) path st =
     (case PathSegment_copy segment st of
        Inl e \<Rightarrow> Inl e
      | Inr (c, st1) \<Rightarrow>
          (case Path_addSegment path c st1 of
             Inl e \<Rightarrow> Inl e
           | Inr st2 \<Rightarrow> Path_copy_forEach rest path st2))"

definition Path_copy :: "Path \<Rightarrow> store \<Rightarrow> js_error + Path \<times> store" where
  "Path_copy this st =
     (let (path0, st1) = Path_new st;
          path = path0\<lparr>Path.originPosition := Path.originPosition this,
                       Path.originHeading := Path.originHeading this\<rparr>
      in case objects st1 (Path.segments this) of
           Some (ArrayObj rs) \<Rightarrow>
             (case Path_copy_forEach rs path st1 of
                Inl e \<Rightarrow> Inl e
              | Inr st2 \<Rightarrow> Inr (path, st2))
         | _ \<Rightarrow> Inl TypeError)"

text \<open>
  What a well-formed store guarantees about a Path: the addresses at and above
  \<open>next_ref\<close> are unused, the Path's origin is a vector, its segment array is in the
  store, and every entry of the array is a path segment.
\<close>

definition segment_refs :: "Path \<Rightarrow> store \<Rightarrow> ref list option" where
  "segment_refs this st =
     (case objects st (Path.segments this) of Some (ArrayObj rs) \<Rightarrow> Some rs | _ \<Rightarrow> None)"

definition is_vector :: "store \<Rightarrow> ref \<Rightarrow> bool" where
  "is_vector st r = (case objects st r of Some (VectorObj x y) \<Rightarrow> True | _ \<Rightarrow> False)"

definition is_segment :: "store \<Rightarrow> ref \<Rightarrow> bool" where
  "is_segment st r = (case objects st r of Some (PathSegmentObj a d) \<Rightarrow> True | _ \<Rightarrow> False)"

definition store_ok :: "store \<Rightarrow> bool" where
  "store_ok st = (\<forall>r. next_ref st \<le> r \<longrightarrow> objects st r = None)"

definition Path_ok :: "Path \<Rightarrow> store \<Rightarrow> bool" where
  "Path_ok this st =
     (is_vector st (Path.originPosition this) \<and>
      (case segment_refs this st of None \<Rightarrow> False | Some rs \<Rightarrow> list_all (is_segment st) rs))"

section \<open>PathSegment, Path and Figure\<close>

record path_segment =
  angle :: real
  distance :: real

text \<open>
  A Figure adds only drawing to a Path, so the state of both is the record \<open>figure\<close>.
  The geometric code below copies \<^verbatim>\<open>originPosition\<close> before it changes it and
  shares no array, so values suffice for it; \<^verbatim>\<open>Path.copy\<close>, whose contract is about
  sharing, is modelled on the store above.
\<close>

record figure =
  originPosition :: vector
  originHeading :: real
  segments :: "path_segment list"

definition addSegment :: "path_segment \<Rightarrow> 'a figure_scheme \<Rightarrow> 'a figure_scheme" where
  "addSegment segment this = this\<lparr>segments := segments this @ [segment]\<rparr>"

section \<open>Smoke.walkToSegment\<close>

record location =
  offset :: vector
  heading :: real

function walkToSegment_loop ::
  "path_segment list \<Rightarrow> int \<Rightarrow> nat \<Rightarrow> vector \<Rightarrow> real \<Rightarrow> js_error + location" where
  "walkToSegment_loop segs branchIndex i position hdg =
     (if i < length segs then
        (if int i \<ge> branchIndex then Inr \<lparr>offset = position, heading = hdg\<rparr>
         else (case array_get segs i of
                 Inl e \<Rightarrow> Inl e
               | Inr segment \<Rightarrow>
                   (let hdg' = hdg + angle segment;
                        vector = fromAngle hdg' (path_segment.distance segment)
                    in walkToSegment_loop segs branchIndex (i + 1)
                         (vector_add position vector) hdg')))
      else Inr \<lparr>offset = position, heading = hdg\<rparr>)"
  by pat_completeness auto
termination
  by (relation "measure (\<lambda>(segs, b, i, p, h). length segs - i)") auto

declare walkToSegment_loop.simps [simp del]

definition walkToSegment :: "'a figure_scheme \<Rightarrow> int \<Rightarrow> js_error + location" where
  "walkToSegment figure branchIndex =
     walkToSegment_loop (segments figure) branchIndex 0
       (originPosition figure) (originHeading figure)"

subsection \<open>The traversal the specification describes\<close>

text \<open>
  The cumulative heading after the first \<open>k\<close> segments, the directional vector of
  segment \<open>i\<close> (its cumulative heading and its distance), and the origin plus the sum of
  the directional vectors of the first \<open>k\<close> segments.
\<close>

definition heading_upto :: "'a figure_scheme \<Rightarrow> nat \<Rightarrow> real" where
  "heading_upto figure k =
     originHeading figure + sum_list (map angle (take k (segments figure)))"

definition directional_vector :: "'a figure_scheme \<Rightarrow> nat \<Rightarrow> vector" where
  "directional_vector figure i =
     fromAngle (heading_upto figure (Suc i)) (path_segment.distance (segments figure ! i))"

definition position_upto :: "'a figure_scheme \<Rightarrow> nat \<Rightarrow> vector" where
  "position_upto figure k =
     (fst (originPosition figure) + (\<Sum>i<k. fst (directional_vector figure i)),
      snd (originPosition figure) + (\<Sum>i<k. snd (directional_vector figure i)))"

text \<open>The same traversal as a recursion over the segment list.\<close>

fun walk :: "vector \<Rightarrow> real \<Rightarrow> path_segment list \<Rightarrow> vector \<times> real" where
  "walk position hdg [] = (position, hdg)"
| "walk position hdg (segment # rest) =
     walk (vector_add position (fromAngle (hdg + angle segment) (path_segment.distance segment)))
       (hdg + angle segment) rest"


section \<open>SmokeParticle\<close>

record smoke_particle =
  xoffOrigin :: real
  speed :: real
  distance :: real
  creationTime :: real
  lastTime :: real
  position :: vector
  xoffAngleStart :: real
  xoffAngle :: real
  gap :: real
  alpha :: real
  alphaDirection :: int
  isAlive :: bool

definition fadeIn :: "smoke_particle \<Rightarrow> smoke_particle" where
  "fadeIn this = this\<lparr>alpha := 0, alphaDirection := 1\<rparr>"

definition fadeOut :: "smoke_particle \<Rightarrow> smoke_particle" where
  "fadeOut this = this\<lparr>alpha := 255, alphaDirection := - 1\<rparr>"

definition SmokeParticle_update :: "smoke_particle \<Rightarrow> real \<Rightarrow> smoke_particle" where
  "SmokeParticle_update this time =
     (let elapsed = (time - creationTime this) / 1000;
          delta = (time - lastTime this) / 1000;
          this1 = this\<lparr>lastTime := time,
                        smoke_particle.distance := speed this * elapsed,
                        xoffAngle := xoffAngleStart this + elapsed * 2\<rparr>
      in if delta = 0 then this1
         else if alphaDirection this1 = 1 then
           (let this2 = this1\<lparr>alpha := alpha this1 + 300 * delta\<rparr>
            in if alpha this2 \<ge> 255 then this2\<lparr>alpha := 255, alphaDirection := 0\<rparr>
               else this2)
         else if alphaDirection this1 = - 1 then
           (let this2 = this1\<lparr>alpha := alpha this1 - 300 * delta\<rparr>
            in if alpha this2 \<le> 0
               then this2\<lparr>alpha := 0, alphaDirection := 0, isAlive := False\<rparr>
               else this2)
         else this1)"

section \<open>The host: random source, noise and clock\<close>

text \<open>
  The random generator, the noise function, the clock and the magnitude of a vector
  belong to the drawing library. They are parameters of the model: \<open>random_values\<close>
  lists the raw outputs of the generator in the order they are drawn, \<open>millis_values\<close>
  the successive readings of the clock, and the two counters say how many have been
  consumed; \<open>mag\<close> is what \<^verbatim>\<open>vector.mag()\<close> returns. A call of \<^verbatim>\<open>random\<close> with one
  argument scales the raw output, a call with two arguments maps it into the interval
  between them (the library orders the two bounds first). \<^verbatim>\<open>setMag\<close> normalises with
  the host's magnitude unless that is zero, then scales.
\<close>

record host =
  random_values :: "nat \<Rightarrow> real"
  random_calls :: nat
  noise :: "real \<Rightarrow> real"
  millis_values :: "nat \<Rightarrow> real"
  millis_calls :: nat
  mag :: "vector \<Rightarrow> real"

definition setMag :: "host \<Rightarrow> vector \<Rightarrow> real \<Rightarrow> vector" where
  "setMag h v n = mult (if mag h v \<noteq> 0 then mult v (1 / mag h v) else v) n"

text \<open>A host whose magnitudes are exact on the vectors \<^verbatim>\<open>fromAngle\<close> builds.\<close>

definition mag_exact :: "host \<Rightarrow> bool" where
  "mag_exact h = (\<forall>a d. mag h (fromAngle a d) = \<bar>d\<bar>)"

definition random1 :: "real \<Rightarrow> host \<Rightarrow> real \<times> host" where
  "random1 mx h =
     (random_values h (random_calls h) * mx, h\<lparr>random_calls := Suc (random_calls h)\<rparr>)"

definition random2 :: "real \<Rightarrow> real \<Rightarrow> host \<Rightarrow> real \<times> host" where
  "random2 mn mx h =
     (let lo = (if mn > mx then mx else mn);
          hi = (if mn > mx then mn else mx)
      in (random_values h (random_calls h) * (hi - lo) + lo,
          h\<lparr>random_calls := Suc (random_calls h)\<rparr>))"

definition millis :: "host \<Rightarrow> real \<times> host" where
  "millis h = (millis_values h (millis_calls h), h\<lparr>millis_calls := Suc (millis_calls h)\<rparr>)"

text \<open>The raw outputs of the random generator lie in \<open>[0, 1)\<close>.\<close>

definition host_ok :: "host \<Rightarrow> bool" where
  "host_ok h = (\<forall>n. 0 \<le> random_values h n \<and> random_values h n < 1)"

definition SmokeParticle_new :: "real \<Rightarrow> real option \<Rightarrow> host \<Rightarrow> smoke_particle \<times> host" where
  "SmokeParticle_new distanceOffset xoffOrigin_arg h0 =
     (let (xo, h1) = (case xoffOrigin_arg of None \<Rightarrow> random1 2000000 h0 | Some v \<Rightarrow> (v, h0));
          (sp, h2) = random2 100 150 h1;
          (t, h3) = millis h2;
          (xs, h4) = random1 2000000 h3;
          (g, h5) = random1 20 h4
      in (fadeIn \<lparr>xoffOrigin = xo, speed = sp, smoke_particle.distance = distanceOffset,
                   creationTime = t, lastTime = t, position = createVector 0 0,
                   xoffAngleStart = xs, xoffAngle = 0, gap = g, alpha = 255,
                   alphaDirection = 0, isAlive = True\<rparr>, h5))"

section \<open>Smoke\<close>

record smoke = figure +
  particles :: "smoke_particle list"

function createSmokePath_loop ::
  "(real \<Rightarrow> real) \<Rightarrow> int \<Rightarrow> int \<Rightarrow> real \<Rightarrow> smoke \<Rightarrow> smoke" where
  "createSmokePath_loop nz len i xoff this =
     (if i < len then
        (let ang = (nz xoff - 0.5) * HALF_PI / 10;
             segment = \<lparr>angle = ang, path_segment.distance = 2\<rparr>
         in createSmokePath_loop nz len (i + 1) (xoff + 0.004) (addSegment segment this))
      else this)"
  by pat_completeness auto
termination
  by (relation "measure (\<lambda>(nz, len, i, xoff, this). nat (len - i))") auto

declare createSmokePath_loop.simps [simp del]

definition createSmokePath :: "int \<Rightarrow> smoke \<Rightarrow> host \<Rightarrow> smoke \<times> host" where
  "createSmokePath len this h =
     (let (xoff, h1) = random1 2000000 h
      in (createSmokePath_loop (noise h1) len 0 xoff this, h1))"

definition spawnParticle :: "smoke \<Rightarrow> host \<Rightarrow> smoke \<times> host" where
  "spawnParticle this h =
     (let len = real (length (particles this)) * 2;
          (distanceOffset, h1) = random1 len h;
          (p, h2) = SmokeParticle_new distanceOffset None h1
      in (this\<lparr>particles := particles this @ [p]\<rparr>, h2))"

function prepareParticles_loop :: "nat \<Rightarrow> smoke \<Rightarrow> host \<Rightarrow> smoke \<times> host" where
  "prepareParticles_loop i this h =
     (if i < 2 then
        (let (this', h') = spawnParticle this h in prepareParticles_loop (i + 1) this' h')
      else (this, h))"
  by pat_completeness auto
termination
  by (relation "measure (\<lambda>(i, this, h). 2 - i)") auto

declare prepareParticles_loop.simps [simp del]

definition prepareParticles :: "smoke \<Rightarrow> host \<Rightarrow> smoke \<times> host" where
  "prepareParticles this h = prepareParticles_loop 0 (this\<lparr>particles := []\<rparr>) h"

text \<open>
  The constructor. An omitted argument is \<open>None\<close>; \<^verbatim>\<open>minLength\<close> and
  \<^verbatim>\<open>maxLength\<close> then take their defaults 50 and 100, and \<^verbatim>\<open>branchIndex\<close> is drawn
  at random. \<^verbatim>\<open>super()\<close> gives the origin \<open>(0, 0)\<close>, heading 0 and no segments.
\<close>

definition Smoke_new ::
  "'a figure_scheme \<Rightarrow> int option \<Rightarrow> real option \<Rightarrow> real option \<Rightarrow> host
     \<Rightarrow> js_error + smoke \<times> host" where
  "Smoke_new figure branchIndex_arg minLength_arg maxLength_arg h0 =
     (let minLength = (case minLength_arg of None \<Rightarrow> 50 | Some v \<Rightarrow> v);
          maxLength = (case maxLength_arg of None \<Rightarrow> 100 | Some v \<Rightarrow> v);
          this0 = \<lparr>originPosition = createVector 0 0, originHeading = 0, segments = [],
                   particles = []\<rparr>;
          (branchIndex, h1) =
            (case branchIndex_arg of
               None \<Rightarrow> (let (r, h') = random1 (real (length (segments figure))) h0
                        in (\<lfloor>r\<rfloor>, h'))
             | Some b \<Rightarrow> (b, h0))
      in case walkToSegment figure branchIndex of
           Inl e \<Rightarrow> Inl e
         | Inr location \<Rightarrow>
             (let this1 = this0\<lparr>originPosition := offset location,
                                originHeading := heading location\<rparr>;
                  (r, h2) = random2 minLength maxLength h1;
                  len = \<lfloor>r\<rfloor>;
                  (this2, h3) = createSmokePath len this1 h2
              in Inr (prepareParticles this2 h3)))"

subsection \<open>Smoke.calculateParticlePositions\<close>

text \<open>
  The inner \<^verbatim>\<open>while (true)\<close> either leaves the whole function (\<open>Returned\<close>, with
  the particles as they are then) or breaks out to the segment loop (\<open>Running\<close>, with
  the loop variables).
\<close>

datatype ('r, 's) flow = Returned 'r | Running 's

function calculate_while ::
  "host \<Rightarrow> path_segment \<Rightarrow> vector \<Rightarrow> vector \<Rightarrow> smoke_particle list \<Rightarrow> nat \<Rightarrow> real
     \<Rightarrow> js_error + (smoke_particle list, smoke_particle list \<times> nat \<times> real) flow" where
  "calculate_while h segment vector pos ps particleIndex remainingDistance =
     (if path_segment.distance segment \<ge> remainingDistance then
        (case array_get ps particleIndex of
           Inl e \<Rightarrow> Inl e
         | Inr particle \<Rightarrow>
             (let workVector = setMag h vector remainingDistance;
                  ps' = ps[particleIndex := particle\<lparr>position := vector_add pos workVector\<rparr>];
                  particleIndex' = particleIndex + 1
              in if particleIndex' \<ge> length ps' then Inr (Returned ps')
                 else calculate_while h segment vector pos ps' particleIndex'
                        (remainingDistance +
                           (smoke_particle.distance (ps' ! particleIndex') -
                            smoke_particle.distance (ps' ! (particleIndex' - 1))))))
      else Inr (Running (ps, particleIndex, remainingDistance)))"
  by pat_completeness auto
termination
  by (relation "measure (\<lambda>(h, segment, vector, pos, ps, i, r). length ps - i)") auto

declare calculate_while.simps [simp del]

fun calculate_for ::
  "host \<Rightarrow> path_segment list \<Rightarrow> vector \<Rightarrow> real \<Rightarrow> smoke_particle list \<Rightarrow> nat \<Rightarrow> real
     \<Rightarrow> js_error + (smoke_particle list, smoke_particle list \<times> nat \<times> vector) flow" where
  "calculate_for h [] pos hdg ps particleIndex remainingDistance =
     Inr (Running (ps, particleIndex, pos))"
| "calculate_for h (segment # rest) pos hdg ps particleIndex remainingDistance =
     (let hdg' = hdg + angle segment;
          vector = fromAngle hdg' (path_segment.distance segment)
      in case calculate_while h segment vector pos ps particleIndex remainingDistance of
           Inl e \<Rightarrow> Inl e
         | Inr (Returned ps') \<Rightarrow> Inr (Returned ps')
         | Inr (Running (ps', particleIndex', remainingDistance')) \<Rightarrow>
             calculate_for h rest (vector_add pos vector) hdg' ps' particleIndex'
               (remainingDistance' - mag h vector))"

function calculate_rest :: "vector \<Rightarrow> smoke_particle list \<Rightarrow> nat \<Rightarrow> smoke_particle list" where
  "calculate_rest pos ps i =
     (if i < length ps then
        (let particle = (ps ! i)\<lparr>position := pos\<rparr>;
             particle' = (if alphaDirection particle \<noteq> - 1 then fadeOut particle else particle)
         in calculate_rest pos (ps[i := particle']) (i + 1))
      else ps)"
  by pat_completeness auto
termination
  by (relation "measure (\<lambda>(pos, ps, i). length ps - i)") auto

declare calculate_rest.simps [simp del]

definition calculateParticlePositions :: "host \<Rightarrow> smoke \<Rightarrow> js_error + smoke" where
  "calculateParticlePositions h this =
     (if length (particles this) = 0 then Inr this
      else case array_get (particles this) 0 of
             Inl e \<Rightarrow> Inl e
           | Inr first \<Rightarrow>
               (case calculate_for h (segments this) (originPosition this) (originHeading this)
                       (particles this) 0 (smoke_particle.distance first) of
                  Inl e \<Rightarrow> Inl e
                | Inr (Returned ps) \<Rightarrow> Inr (this\<lparr>particles := ps\<rparr>)
                | Inr (Running (ps, particleIndex, pos)) \<Rightarrow>
                    Inr (this\<lparr>particles := calculate_rest pos ps particleIndex\<rparr>)))"

subsection \<open>Smoke.update\<close>

text \<open>
  The filter callback updates every particle and keeps those still alive; the sort is by
  \<^verbatim>\<open>distance\<close> and stable.
\<close>

definition Smoke_update :: "smoke \<Rightarrow> host \<Rightarrow> js_error + smoke \<times> host" where
  "Smoke_update this h =
     (let (time, h1) = millis h;
          kept = filter isAlive (map (\<lambda>p. SmokeParticle_update p time) (particles this));
          sorted = sort_key smoke_particle.distance kept
      in case calculateParticlePositions h1 (this\<lparr>particles := sorted\<rparr>) of
           Inl e \<Rightarrow> Inl e
         | Inr this' \<Rightarrow> Inr (this', h1))"

text \<open>A particle with its position erased: what the path walk leaves untouched.\<close>

definition unplaced :: "smoke_particle \<Rightarrow> smoke_particle" where
  "unplaced p = p\<lparr>position := (0, 0)\<rparr>"

subsection \<open>Writes to a particle\<close>

text \<open>
  Every write the code makes to a particle after its construction: \<^verbatim>\<open>update\<close>,
  \<^verbatim>\<open>fadeIn\<close>, \<^verbatim>\<open>fadeOut\<close>, and the assignment to \<^verbatim>\<open>position\<close> in
  \<^verbatim>\<open>calculateParticlePositions\<close>.
\<close>

datatype particle_call = Update real | FadeIn | FadeOut | SetPosition vector

fun call :: "smoke_particle \<Rightarrow> particle_call \<Rightarrow> smoke_particle" where
  "call p (Update time) = SmokeParticle_update p time"
| "call p FadeIn = fadeIn p"
| "call p FadeOut = fadeOut p"
| "call p (SetPosition v) = p\<lparr>position := v\<rparr>"

subsection \<open>The values the constructor draws\<close>

text \<open>
  The branch index the constructor walks to, and the \<^verbatim>\<open>length\<close> it passes to
  \<^verbatim>\<open>createSmokePath\<close>, as functions of its arguments and the host.
\<close>

definition drawn_branchIndex :: "'a figure_scheme \<Rightarrow> int option \<Rightarrow> host \<Rightarrow> int" where
  "drawn_branchIndex figure branchIndex_arg h0 =
     (case branchIndex_arg of
        None \<Rightarrow> \<lfloor>fst (random1 (real (length (segments figure))) h0)\<rfloor>
      | Some b \<Rightarrow> b)"

definition drawn_length :: "'a figure_scheme \<Rightarrow> int option \<Rightarrow> real option \<Rightarrow> real option \<Rightarrow> host \<Rightarrow> int" where
  "drawn_length figure branchIndex_arg minLength_arg maxLength_arg h0 =
     \<lfloor>fst (random2 (case minLength_arg of None \<Rightarrow> 50 | Some v \<Rightarrow> v)
                (case maxLength_arg of None \<Rightarrow> 100 | Some v \<Rightarrow> v)
                (case branchIndex_arg of
                   None \<Rightarrow> snd (random1 (real (length (segments figure))) h0)
                 | Some b \<Rightarrow> h0))\<rfloor>"

section \<open>Sample inputs\<close>

text \<open>
  A host whose random generator and noise function always give one half, whose clock
  always reads 1000 and whose magnitudes are exact; a figure with no segment and a
  figure with one segment.
\<close>

definition sample_host :: host where
  "sample_host = \<lparr>random_values = (\<lambda>n. 1 / 2), random_calls = 0, noise = (\<lambda>x. 1 / 2),
                   millis_values = (\<lambda>n. 1000), millis_calls = 0, mag = magnitude\<rparr>"

definition empty_figure :: figure where
  "empty_figure = \<lparr>originPosition = (3, 4), originHeading = 1, segments = []\<rparr>"

definition one_segment_figure :: figure where
  "one_segment_figure =
     \<lparr>originPosition = (3, 4), originHeading = 0,
      segments = [\<lparr>angle = 0, path_segment.distance = 5\<rparr>]\<rparr>"

text \<open>
  A Smoke with one segment of length 2 along the x axis and two particles, at distances
  1 and 3; and a particle that is fading out.
\<close>

definition sample_smoke :: smoke where
  "sample_smoke =
     \<lparr>originPosition = (0, 0), originHeading = 0,
      segments = [\<lparr>angle = 0, path_segment.distance = 2\<rparr>],
      particles =
        [\<lparr>xoffOrigin = 0, speed = 120, smoke_particle.distance = 1, creationTime = 0,
          lastTime = 0, position = (0, 0), xoffAngleStart = 0, xoffAngle = 0, gap = 5,
          alpha = 200, alphaDirection = 0, isAlive = True\<rparr>,
         \<lparr>xoffOrigin = 0, speed = 120, smoke_particle.distance = 3, creationTime = 0,
          lastTime = 0, position = (0, 0), xoffAngleStart = 0, xoffAngle = 0, gap = 5,
          alpha = 10, alphaDirection = 1, isAlive = True\<rparr>]\<rparr>"

definition fading_particle :: smoke_particle where
  "fading_particle =
     \<lparr>xoffOrigin = 0, speed = 120, smoke_particle.distance = 30, creationTime = 0,
      lastTime = 250, position = (0, 0), xoffAngleStart = 0, xoffAngle = 0, gap = 5,
      alpha = 10, alphaDirection = - 1, isAlive = True\<rparr>"




text \<open>
  A store holding a vector, an array of two path segments and the segments, and a Path
  made of them.
\<close>

definition sample_store :: store where
  "sample_store =
     \<lparr>objects = [0 \<mapsto> VectorObj 1 2, 1 \<mapsto> ArrayObj [2, 3],
                 2 \<mapsto> PathSegmentObj 0 2, 3 \<mapsto> PathSegmentObj 1 2],
      next_ref = 4\<rparr>"

definition sample_path :: Path where
  "sample_path = \<lparr>Path.originPosition = 0, Path.originHeading = 5, Path.segments = 1\<rparr>"

section \<open>Properties\<close>

lemma walk_append:
  "walk p h (xs @ ys) = walk (fst (walk p h xs)) (snd (walk p h xs)) ys"
  by (induction xs arbitrary: p h) simp_all

lemma walkToSegment_loop_walk:
  "i \<le> length segs \<Longrightarrow>
   walkToSegment_loop segs b i p h =
     Inr \<lparr>offset = fst (walk p h (take (nat b - i) (drop i segs))),
          heading = snd (walk p h (take (nat b - i) (drop i segs)))\<rparr>"
proof (induction segs b i p h rule: walkToSegment_loop.induct)
  case (1 segs b i p h)
  show ?case
  proof (cases "i < length segs")
    case False
    then show ?thesis
      by (simp add: walkToSegment_loop.simps [of segs b i p h])
  next
    case inside: True
    show ?thesis
    proof (cases "int i \<ge> b")
      case True
      then have "nat b - i = 0" by simp
      with inside True show ?thesis
        by (simp add: walkToSegment_loop.simps [of segs b i p h])
    next
      case False
      then have nb: "nat b - i = Suc (nat b - Suc i)" by linarith
      have dr: "drop i segs = segs ! i # drop (Suc i) segs"
        using inside by (simp add: Cons_nth_drop_Suc)
      have get: "array_get segs i = Inr (segs ! i)"
        using inside by (simp add: array_get_def)
      define p' where
        "p' = vector_add p (fromAngle (h + angle (segs ! i)) (path_segment.distance (segs ! i)))"
      define h' where "h' = h + angle (segs ! i)"
      have ih: "walkToSegment_loop segs b (Suc i) p' h' =
         Inr \<lparr>offset = fst (walk p' h' (take (nat b - Suc i) (drop (Suc i) segs))),
              heading = snd (walk p' h' (take (nat b - Suc i) (drop (Suc i) segs)))\<rparr>"
        using "1.IH" [OF inside False get refl refl] inside
        by (simp add: p'_def h'_def)
      have step: "walkToSegment_loop segs b i p h = walkToSegment_loop segs b (Suc i) p' h'"
        using inside False
        by (simp add: walkToSegment_loop.simps [of segs b i p h] get Let_def p'_def h'_def)
      have same: "walk p' h' (take (nat b - Suc i) (drop (Suc i) segs)) =
          walk p h (take (nat b - i) (drop i segs))"
        by (simp add: nb dr p'_def h'_def)
      show ?thesis
        using ih by (simp only: step same)
    qed
  qed
qed

lemma walk_take_Suc:
  assumes "k < length segs"
  shows "walk p h (take (Suc k) segs) =
    (vector_add (fst (walk p h (take k segs)))
       (fromAngle (snd (walk p h (take k segs)) + angle (segs ! k))
          (path_segment.distance (segs ! k))),
     snd (walk p h (take k segs)) + angle (segs ! k))"
  using assms by (simp add: take_Suc_conv_app_nth walk_append)

lemma walk_upto:
  "k \<le> length (segments figure) \<Longrightarrow>
   walk (originPosition figure) (originHeading figure) (take k (segments figure)) =
     (position_upto figure k, heading_upto figure k)"
proof (induction k)
  case 0
  show ?case by (simp add: position_upto_def heading_upto_def)
next
  case (Suc k)
  then have lt: "k < length (segments figure)" by simp
  have hdg: "heading_upto figure (Suc k) = heading_upto figure k + angle (segments figure ! k)"
    using lt by (simp add: heading_upto_def take_Suc_conv_app_nth)
  show ?case
    using Suc.IH lt
    by (simp add: walk_take_Suc hdg position_upto_def directional_vector_def vector_add_def)
qed



lemma walkToSegment_walk:
  "walkToSegment figure b =
     Inr \<lparr>offset = fst (walk (originPosition figure) (originHeading figure)
                          (take (nat b) (segments figure))),
          heading = snd (walk (originPosition figure) (originHeading figure)
                           (take (nat b) (segments figure)))\<rparr>"
  using walkToSegment_loop_walk [of 0 "segments figure" b]
  by (simp add: walkToSegment_def)

text \<open>
  C3. For every figure and every branchIndex from 0 to the number of segments,
  \<^verbatim>\<open>walkToSegment\<close> returns the origin heading plus the sum of the angles of the
  segments before branchIndex, and the origin position plus the sum of the directional
  vectors (cumulative heading, segment distance) of those segments; a figure with the
  same origin and the same segments before branchIndex gives the same result, whatever
  its segments from branchIndex on.
\<close>

theorem walkToSegment_replay:
  assumes "0 \<le> branchIndex" and "branchIndex \<le> int (length (segments figure))"
  shows "walkToSegment figure branchIndex =
           Inr \<lparr>offset = position_upto figure (nat branchIndex),
                heading = heading_upto figure (nat branchIndex)\<rparr> \<and>
         (\<forall>other :: figure.
            originPosition other = originPosition figure \<and>
            originHeading other = originHeading figure \<and>
            take (nat branchIndex) (segments other) = take (nat branchIndex) (segments figure)
            \<longrightarrow> walkToSegment other branchIndex = walkToSegment figure branchIndex)"
proof -
  have "nat branchIndex \<le> length (segments figure)"
    using assms by linarith
  then have "walkToSegment figure branchIndex =
           Inr \<lparr>offset = position_upto figure (nat branchIndex),
                heading = heading_upto figure (nat branchIndex)\<rparr>"
    by (simp add: walkToSegment_walk walk_upto)
  then show ?thesis
    by (simp add: walkToSegment_walk)
qed

theorem walkToSegment_replay_witness:
  "walkToSegment \<lparr>originPosition = (1, 2), originHeading = 0,
      segments = [\<lparr>angle = 0, path_segment.distance = 3\<rparr>,
                  \<lparr>angle = 0, path_segment.distance = 4\<rparr>]\<rparr> 1
   = Inr \<lparr>offset = (4, 2), heading = 0\<rparr> \<and>
   walkToSegment \<lparr>originPosition = (1, 2), originHeading = 0,
      segments = [\<lparr>angle = 0, path_segment.distance = 3\<rparr>,
                  \<lparr>angle = 1, path_segment.distance = 9\<rparr>]\<rparr> 1
   = Inr \<lparr>offset = (4, 2), heading = 0\<rparr>"
  using walkToSegment_replay [of 1 "\<lparr>originPosition = (1, 2), originHeading = 0,
      segments = [\<lparr>angle = 0, path_segment.distance = 3\<rparr>,
                  \<lparr>angle = 0, path_segment.distance = 4\<rparr>]\<rparr>"]
  by (simp add: position_upto_def heading_upto_def directional_vector_def fromAngle_def)

text \<open>
  C10. For every figure and every branchIndex at or beyond the number of segments,
  \<^verbatim>\<open>walkToSegment\<close> does not fail: it applies every segment and returns the position
  and heading of the figure's final endpoint, as it does for branchIndex equal to the
  number of segments.
\<close>

theorem walkToSegment_beyond_end:
  assumes "int (length (segments figure)) \<le> branchIndex"
  shows "walkToSegment figure branchIndex =
           Inr \<lparr>offset = position_upto figure (length (segments figure)),
                heading = heading_upto figure (length (segments figure))\<rparr> \<and>
         walkToSegment figure branchIndex =
           walkToSegment figure (int (length (segments figure)))"
proof -
  have "length (segments figure) \<le> nat branchIndex"
    using assms by linarith
  then have "take (nat branchIndex) (segments figure) =
      take (length (segments figure)) (segments figure)"
    by simp
  then show ?thesis
    using walk_upto [of "length (segments figure)" figure]
    by (simp add: walkToSegment_walk)
qed

theorem walkToSegment_beyond_end_witness:
  "walkToSegment \<lparr>originPosition = (1, 2), originHeading = 0,
      segments = [\<lparr>angle = 0, path_segment.distance = 3\<rparr>,
                  \<lparr>angle = 0, path_segment.distance = 4\<rparr>]\<rparr> 7
   = Inr \<lparr>offset = (8, 2), heading = 0\<rparr>"
  using walkToSegment_beyond_end [of "\<lparr>originPosition = (1, 2), originHeading = 0,
      segments = [\<lparr>angle = 0, path_segment.distance = 3\<rparr>,
                  \<lparr>angle = 0, path_segment.distance = 4\<rparr>]\<rparr>" 7]
  by (simp add: position_upto_def heading_upto_def directional_vector_def fromAngle_def
      lessThan_Suc numeral_2_eq_2)

subsection \<open>SmokeParticle.update\<close>

lemma SmokeParticle_update_speed [simp]:
  "speed (SmokeParticle_update p t) = speed p"
  by (simp add: SmokeParticle_update_def Let_def)

lemma SmokeParticle_update_creationTime [simp]:
  "creationTime (SmokeParticle_update p t) = creationTime p"
  by (simp add: SmokeParticle_update_def Let_def)

lemma SmokeParticle_update_distance:
  "smoke_particle.distance (SmokeParticle_update p t) = speed p * ((t - creationTime p) / 1000)"
  by (simp add: SmokeParticle_update_def Let_def)

lemma SmokeParticle_update_at_creation:
  "smoke_particle.distance (SmokeParticle_update p (creationTime p)) = 0"
  by (simp add: SmokeParticle_update_distance)

lemma foldl_update_speed [simp]:
  "speed (foldl SmokeParticle_update p ts) = speed p"
  by (induction ts arbitrary: p) simp_all

lemma foldl_update_creationTime [simp]:
  "creationTime (foldl SmokeParticle_update p ts) = creationTime p"
  by (induction ts arbitrary: p) simp_all

text \<open>
  C5. For every particle whose alpha is between 0 and 255 and every update at a time not
  before the particle's lastTime, alpha is between 0 and 255 after the update, however
  large the time delta.
\<close>

theorem update_alpha_bounds:
  assumes "0 \<le> alpha p" and "alpha p \<le> 255" and "lastTime p \<le> time"
  shows "0 \<le> alpha (SmokeParticle_update p time) \<and> alpha (SmokeParticle_update p time) \<le> 255"
proof -
  define delta where "delta = (time - lastTime p) / 1000"
  have nonneg: "0 \<le> 300 * delta"
    using assms(3) by (simp add: delta_def)
  have up: "0 \<le> alpha p + 300 * delta"
    using assms(1) nonneg by linarith
  have down: "alpha p - 300 * delta \<le> 255"
    using assms(2) nonneg by linarith
  show ?thesis
    using assms(1,2) up down
    by (simp add: SmokeParticle_update_def Let_def delta_def [symmetric])
qed

theorem update_alpha_bounds_witness:
  "0 \<le> alpha (SmokeParticle_update
     \<lparr>xoffOrigin = 0, speed = 120, smoke_particle.distance = 0,
      creationTime = 0, lastTime = 1000, position = (0, 0),
      xoffAngleStart = 0, xoffAngle = 0, gap = 5, alpha = 100,
      alphaDirection = 1, isAlive = True\<rparr> 1000000000) \<and>
   alpha (SmokeParticle_update
     \<lparr>xoffOrigin = 0, speed = 120, smoke_particle.distance = 0,
      creationTime = 0, lastTime = 1000, position = (0, 0),
      xoffAngleStart = 0, xoffAngle = 0, gap = 5, alpha = 100,
      alphaDirection = 1, isAlive = True\<rparr> 1000000000) \<le> 255"
  using update_alpha_bounds [of "\<lparr>xoffOrigin = 0, speed = 120, smoke_particle.distance = 0,
      creationTime = 0, lastTime = 1000, position = (0, 0),
      xoffAngleStart = 0, xoffAngle = 0, gap = 5, alpha = 100,
      alphaDirection = 1, isAlive = True\<rparr>" 1000000000]
  by simp

text \<open>
  C9. Every update recomputes the distance as the speed times the seconds elapsed since
  creation, whatever the distance was before and whatever updates came in between. So
  for every particle of positive speed and any two updates at times \<open>T1 < T2\<close>, with
  any updates in between, the distance computed at \<open>T2\<close> is at least the distance
  computed at \<open>T1\<close>. (That both times are at or after the creation time is not
  needed.)
\<close>

theorem update_distance_monotone:
  assumes "0 < speed p" and "T1 < T2"
  shows "smoke_particle.distance (SmokeParticle_update p T1) =
           speed p * ((T1 - creationTime p) / 1000) \<and>
         smoke_particle.distance
            (SmokeParticle_update (foldl SmokeParticle_update (SmokeParticle_update p T1) ts) T2) =
           speed p * ((T2 - creationTime p) / 1000) \<and>
         smoke_particle.distance (SmokeParticle_update p T1)
           \<le> smoke_particle.distance
                (SmokeParticle_update (foldl SmokeParticle_update (SmokeParticle_update p T1) ts) T2)"
proof -
  have "(T1 - creationTime p) / 1000 \<le> (T2 - creationTime p) / 1000"
    using assms(2) by simp
  then have "speed p * ((T1 - creationTime p) / 1000) \<le> speed p * ((T2 - creationTime p) / 1000)"
    using assms(1) by (simp only: mult_le_cancel_left_pos)
  then show ?thesis
    by (simp only: SmokeParticle_update_distance SmokeParticle_update_speed
        SmokeParticle_update_creationTime foldl_update_speed foldl_update_creationTime simp_thms)
qed

theorem update_distance_monotone_witness:
  "smoke_particle.distance (SmokeParticle_update
     \<lparr>xoffOrigin = 0, speed = 120, smoke_particle.distance = 7,
      creationTime = 0, lastTime = 0, position = (0, 0),
      xoffAngleStart = 0, xoffAngle = 0, gap = 5, alpha = 0,
      alphaDirection = 1, isAlive = True\<rparr> 500) = 60 \<and>
   smoke_particle.distance (SmokeParticle_update (foldl SmokeParticle_update
       (SmokeParticle_update
         \<lparr>xoffOrigin = 0, speed = 120, smoke_particle.distance = 7,
          creationTime = 0, lastTime = 0, position = (0, 0),
          xoffAngleStart = 0, xoffAngle = 0, gap = 5, alpha = 0,
          alphaDirection = 1, isAlive = True\<rparr> 500) [600, 700]) 2000) = 240 \<and>
   smoke_particle.distance (SmokeParticle_update
     \<lparr>xoffOrigin = 0, speed = 120, smoke_particle.distance = 7,
      creationTime = 0, lastTime = 0, position = (0, 0),
      xoffAngleStart = 0, xoffAngle = 0, gap = 5, alpha = 0,
      alphaDirection = 1, isAlive = True\<rparr> 500)
   \<le> smoke_particle.distance (SmokeParticle_update (foldl SmokeParticle_update
       (SmokeParticle_update
         \<lparr>xoffOrigin = 0, speed = 120, smoke_particle.distance = 7,
          creationTime = 0, lastTime = 0, position = (0, 0),
          xoffAngleStart = 0, xoffAngle = 0, gap = 5, alpha = 0,
          alphaDirection = 1, isAlive = True\<rparr> 500) [600, 700]) 2000)"
  using update_distance_monotone [of "\<lparr>xoffOrigin = 0, speed = 120,
      smoke_particle.distance = 7,
      creationTime = 0, lastTime = 0, position = (0, 0),
      xoffAngleStart = 0, xoffAngle = 0, gap = 5, alpha = 0,
      alphaDirection = 1, isAlive = True\<rparr>" 500 2000 "[600, 700]"]
  by simp

subsection \<open>The Smoke constructor\<close>

lemma createSmokePath_loop_distances:
  "map path_segment.distance (segments (createSmokePath_loop nz len i xoff this)) =
     map path_segment.distance (segments this) @ replicate (nat (len - i)) 2"
proof (induction nz len i xoff this rule: createSmokePath_loop.induct)
  case (1 nz len i xoff this)
  show ?case
  proof (cases "i < len")
    case False
    then show ?thesis
      by (simp add: createSmokePath_loop.simps [of nz len i xoff this])
  next
    case True
    then have n: "nat (len - i) = Suc (nat (len - (i + 1)))" by linarith
    show ?thesis
      using True "1.IH" [OF True refl refl]
      by (simp add: createSmokePath_loop.simps [of nz len i xoff this] n addSegment_def
          replicate_append_same)
  qed
qed

lemma createSmokePath_loop_frame:
  "originPosition (createSmokePath_loop nz len i xoff this) = originPosition this \<and>
   originHeading (createSmokePath_loop nz len i xoff this) = originHeading this \<and>
   particles (createSmokePath_loop nz len i xoff this) = particles this"
proof (induction nz len i xoff this rule: createSmokePath_loop.induct)
  case (1 nz len i xoff this)
  show ?case
  proof (cases "i < len")
    case False
    then show ?thesis
      by (simp add: createSmokePath_loop.simps [of nz len i xoff this])
  next
    case True
    show ?thesis
      using True "1.IH" [OF True refl refl]
      by (simp add: createSmokePath_loop.simps [of nz len i xoff this] addSegment_def)
  qed
qed

lemma prepareParticles_unfold:
  "prepareParticles this h =
     spawnParticle (fst (spawnParticle (this\<lparr>particles := []\<rparr>) h))
       (snd (spawnParticle (this\<lparr>particles := []\<rparr>) h))"
  by (simp add: prepareParticles_def prepareParticles_loop.simps [of 0]
      prepareParticles_loop.simps [of "Suc 0"] prepareParticles_loop.simps [of "Suc (Suc 0)"]
      case_prod_beta)

lemma spawnParticle_frame:
  "segments (fst (spawnParticle this h)) = segments this \<and>
   originPosition (fst (spawnParticle this h)) = originPosition this \<and>
   originHeading (fst (spawnParticle this h)) = originHeading this \<and>
   length (particles (fst (spawnParticle this h))) = Suc (length (particles this))"
  by (simp add: spawnParticle_def Let_def split: prod.splits)

lemma prepareParticles_frame:
  "segments (fst (prepareParticles this h)) = segments this \<and>
   originPosition (fst (prepareParticles this h)) = originPosition this \<and>
   originHeading (fst (prepareParticles this h)) = originHeading this \<and>
   length (particles (fst (prepareParticles this h))) = 2"
  using spawnParticle_frame [of "this\<lparr>particles := []\<rparr>" h]
    spawnParticle_frame [of "fst (spawnParticle (this\<lparr>particles := []\<rparr>) h)"
      "snd (spawnParticle (this\<lparr>particles := []\<rparr>) h)"]
  by (simp add: prepareParticles_unfold)


lemma createSmokePath_frame:
  "map path_segment.distance (segments (fst (createSmokePath len this h))) =
     map path_segment.distance (segments this) @ replicate (nat len) 2 \<and>
   originPosition (fst (createSmokePath len this h)) = originPosition this \<and>
   originHeading (fst (createSmokePath len this h)) = originHeading this"
  by (simp add: createSmokePath_def case_prod_beta createSmokePath_loop_distances
      createSmokePath_loop_frame)

lemma Smoke_new_shape:
  "\<exists>this h'. Smoke_new figure b mn mx h0 = Inr (this, h') \<and>
     length (particles this) = 2 \<and>
     map path_segment.distance (segments this) =
       replicate (nat (drawn_length figure b mn mx h0)) 2 \<and>
     walkToSegment figure (drawn_branchIndex figure b h0) =
       Inr \<lparr>offset = originPosition this, heading = originHeading this\<rparr>"
proof (cases b)
  case None
  show ?thesis
    unfolding Smoke_new_def Let_def case_prod_beta None drawn_length_def drawn_branchIndex_def
    apply (simp add: walkToSegment_walk)
    apply (subst surjective_pairing [of "prepareParticles _ _"])
    apply (simp add: prepareParticles_frame createSmokePath_frame del: prod.collapse)
    done
next
  case (Some v)
  show ?thesis
    unfolding Smoke_new_def Let_def case_prod_beta Some drawn_length_def drawn_branchIndex_def
    apply (simp add: walkToSegment_walk)
    apply (subst surjective_pairing [of "prepareParticles _ _"])
    apply (simp add: prepareParticles_frame createSmokePath_frame del: prod.collapse)
    done
qed


lemma random2_bounds:
  assumes "host_ok h" and "mn \<le> mx"
  shows "mn \<le> fst (random2 mn mx h)" and "mn < mx \<Longrightarrow> fst (random2 mn mx h) < mx"
proof -
  define u where "u = random_values h (random_calls h)"
  have u: "0 \<le> u" "u < 1"
    using assms(1) by (simp_all add: host_ok_def u_def)
  have eq: "fst (random2 mn mx h) = u * (mx - mn) + mn"
    using assms(2) by (simp add: random2_def Let_def u_def)
  have "0 \<le> u * (mx - mn)"
    using u(1) assms(2) by simp
  then show "mn \<le> fst (random2 mn mx h)"
    by (simp add: eq)
  assume lt: "mn < mx"
  then have "u * (mx - mn) < 1 * (mx - mn)"
    using u(2) by (simp only: mult_strict_right_mono diff_gt_0_iff_gt)
  then show "fst (random2 mn mx h) < mx"
    by (simp add: eq)
qed

lemma host_ok_random1: "host_ok h \<Longrightarrow> host_ok (snd (random1 mx h))"
  by (simp add: host_ok_def random1_def)

lemma Smoke_new_segments_nonneg:
  assumes "Smoke_new figure b mn mx h0 = Inr (this, h')"
  shows "\<forall>s\<in>set (segments this). 0 \<le> path_segment.distance s"
proof -
  have "map path_segment.distance (segments this) =
      replicate (nat (drawn_length figure b mn mx h0)) 2"
    using Smoke_new_shape [of figure b mn mx h0] assms by auto
  then have "set (map path_segment.distance (segments this)) \<subseteq> {2}"
    by (simp only: set_replicate_conv_if) simp
  then show ?thesis by auto
qed

text \<open>
  C4. A Smoke constructed with the default minLength and maxLength, from any figure and
  with any branchIndex argument, is created without error and its path has between 50
  and 100 segments, whatever values in \<open>[0, 1)\<close> the random source returns.
\<close>

theorem Smoke_new_default_length:
  assumes "host_ok h0"
  shows "\<exists>this h'. Smoke_new figure branchIndex None None h0 = Inr (this, h') \<and>
           50 \<le> length (segments this) \<and> length (segments this) \<le> 100"
proof -
  define h1 where
    "h1 = (case branchIndex of
             None \<Rightarrow> snd (random1 (real (length (segments figure))) h0)
           | Some b \<Rightarrow> h0)"
  have ok: "host_ok h1"
    using assms by (simp add: h1_def host_ok_random1 split: option.splits)
  have len: "drawn_length figure branchIndex None None h0 = \<lfloor>fst (random2 50 100 h1)\<rfloor>"
    by (simp add: drawn_length_def h1_def)
  have lo: "50 \<le> fst (random2 50 100 h1)" and hi: "fst (random2 50 100 h1) < 100"
    using random2_bounds [OF ok, of 50 100] by simp_all
  have fl: "50 \<le> \<lfloor>fst (random2 50 100 h1)\<rfloor>"
    using lo by (simp add: le_floor_iff)
  have fh: "\<lfloor>fst (random2 50 100 h1)\<rfloor> < 100"
    using hi by (simp add: floor_less_iff)
  have n: "50 \<le> nat (drawn_length figure branchIndex None None h0)"
    "nat (drawn_length figure branchIndex None None h0) \<le> 100"
    unfolding len using fl fh by linarith+
  obtain this h' where new: "Smoke_new figure branchIndex None None h0 = Inr (this, h')"
    and segs: "map path_segment.distance (segments this) =
       replicate (nat (drawn_length figure branchIndex None None h0)) 2"
    using Smoke_new_shape [of figure branchIndex None None h0] by blast
  have "length (segments this) = nat (drawn_length figure branchIndex None None h0)"
    using arg_cong [OF segs, of length] by simp
  with n new show ?thesis by simp
qed

theorem Smoke_new_default_length_witness:
  "host_ok sample_host \<and>
   (\<exists>this h'. Smoke_new one_segment_figure None None None sample_host = Inr (this, h') \<and>
           50 \<le> length (segments this) \<and> length (segments this) \<le> 100)"
proof -
  have ok: "host_ok sample_host"
    by (simp add: host_ok_def sample_host_def)
  show ?thesis
    using ok Smoke_new_default_length [OF ok, of one_segment_figure None] by simp
qed

text \<open>
  C8, as the code has it. The constructor validates nothing: for every parent figure
  (also one with no segments) and every minLength and maxLength (also negative ones, or
  maxLength below minLength) it signals no error and returns a Smoke with two
  particles; for a parent with no segments the Smoke's origin is the parent's origin
  position and heading.
\<close>

theorem Smoke_new_no_validation:
  "\<exists>this h'. Smoke_new figure branchIndex minLength maxLength h0 = Inr (this, h') \<and>
     length (particles this) = 2 \<and>
     (segments figure = [] \<longrightarrow>
        originPosition this = originPosition figure \<and>
        originHeading this = originHeading figure)"
proof -
  obtain this h' where new: "Smoke_new figure branchIndex minLength maxLength h0 = Inr (this, h')"
    and two: "length (particles this) = 2"
    and origin: "walkToSegment figure (drawn_branchIndex figure branchIndex h0) =
       Inr \<lparr>offset = originPosition this, heading = originHeading this\<rparr>"
    using Smoke_new_shape [of figure branchIndex minLength maxLength h0] by blast
  have "segments figure = [] \<Longrightarrow>
      originPosition this = originPosition figure \<and> originHeading this = originHeading figure"
    using origin by (simp add: walkToSegment_walk)
  with new two show ?thesis by simp
qed

theorem Smoke_new_no_validation_witness:
  "\<exists>this h'. Smoke_new empty_figure None (Some (- 5)) (Some (- 9)) sample_host = Inr (this, h') \<and>
     length (particles this) = 2 \<and>
     originPosition this = (3, 4) \<and> originHeading this = 1"
  using Smoke_new_no_validation [of empty_figure None "Some (- 5)" "Some (- 9)" sample_host]
  by (simp add: empty_figure_def)

text \<open>
  C8 as the specification states it (such arguments are rejected with InvalidArgument)
  fails on three inputs: a parent with no segments, negative bounds (where the Smoke
  gets a path with no segments) and bounds in decreasing order. None of them is
  rejected.
\<close>

theorem Smoke_new_invalid_counterexample:
  "\<not> isl (Smoke_new empty_figure None None None sample_host) \<and>
   \<not> isl (Smoke_new one_segment_figure (Some 0) (Some (- 5)) (Some (- 1)) sample_host) \<and>
   segments (fst (projr (Smoke_new one_segment_figure (Some 0) (Some (- 5)) (Some (- 1))
     sample_host))) = [] \<and>
   \<not> isl (Smoke_new one_segment_figure (Some 0) (Some 10) (Some 5) sample_host)"
proof -
  have total: "\<not> isl (Smoke_new figure b mn mx h)"
    for figure :: figure and b mn mx h
    using Smoke_new_shape [of figure b mn mx h] by auto
  have "drawn_length one_segment_figure (Some 0) (Some (- 5)) (Some (- 1)) sample_host = - 3"
    by (simp add: drawn_length_def random2_def sample_host_def)
  then have "segments (fst (projr (Smoke_new one_segment_figure (Some 0) (Some (- 5))
      (Some (- 1)) sample_host))) = []"
    using Smoke_new_shape [of one_segment_figure "Some 0" "Some (- 5)" "Some (- 1)" sample_host]
    by auto
  with total show ?thesis by simp
qed


text \<open>
  C1, at a concrete input. A Smoke built from a figure with one segment, with
  branchIndex 0 and minLength = maxLength = 10, on the sample host, has 10 segments of
  distance 2 each (20 in total) and 2 particles. Its second particle is constructed with
  the distance offset 1, and the update at its creation time sets its distance to 0: the
  offset is overwritten by the speed times the elapsed time.
\<close>

theorem Smoke_new_offset_lost:
  "\<not> isl (Smoke_new one_segment_figure (Some 0) (Some 10) (Some 10) sample_host) \<and>
   (let this = fst (projr (Smoke_new one_segment_figure (Some 0) (Some 10) (Some 10) sample_host))
    in map path_segment.distance (segments this) = replicate 10 2 \<and>
       sum_list (map path_segment.distance (segments this)) = 20 \<and>
       length (particles this) = 2 \<and>
       smoke_particle.distance (particles this ! 0) = 0 \<and>
       smoke_particle.distance (particles this ! 1) = 1 \<and>
       smoke_particle.distance
         (SmokeParticle_update (particles this ! 1) (creationTime (particles this ! 1))) = 0)"
  by (simp add: Smoke_new_def walkToSegment_walk createSmokePath_def prepareParticles_unfold
      spawnParticle_def SmokeParticle_new_def random1_def random2_def millis_def fadeIn_def
      sample_host_def one_segment_figure_def createVector_def Let_def case_prod_beta
      createSmokePath_loop_distances createSmokePath_loop_frame SmokeParticle_update_distance
      sum_list_replicate)

subsection \<open>Smoke.calculateParticlePositions\<close>

lemma magnitude_fromAngle: "magnitude (fromAngle a d) = \<bar>d\<bar>"
proof -
  have "d * cos a * (d * cos a) + d * sin a * (d * sin a) =
      d * d * (cos a * cos a + sin a * sin a)"
    by (simp only: distrib_left mult.assoc mult.left_commute)
  also have "\<dots> = d * d"
    by (simp only: sin_cos_squared_add3 mult_1_right)
  finally show ?thesis
    by (simp add: magnitude_def fromAngle_def)
qed

lemma unplaced_update [simp]: "unplaced (p\<lparr>position := v\<rparr>) = unplaced p"
  by (simp add: unplaced_def)

lemma map_unplaced_update:
  "i < length ps \<Longrightarrow> map unplaced (ps[i := (ps ! i)\<lparr>position := v\<rparr>]) = map unplaced ps"
  by (simp add: map_update list_update_same_conv)

lemma map_unplaced_distance:
  assumes "map unplaced ps' = map unplaced ps" and "k < length ps"
  shows "smoke_particle.distance (ps' ! k) = smoke_particle.distance (ps ! k)"
proof -
  have len: "length ps' = length ps"
    using arg_cong [OF assms(1), of length] by simp
  have "unplaced (ps' ! k) = unplaced (ps ! k)"
    using arg_cong [OF assms(1), of "\<lambda>xs. xs ! k"] assms(2) len by simp
  then have "smoke_particle.distance (unplaced (ps' ! k)) = smoke_particle.distance (unplaced (ps ! k))"
    by simp
  then show ?thesis by (simp add: unplaced_def)
qed

lemma calculate_while_cases:
  assumes "idx < length ps"
  shows "(\<exists>ps'. calculate_while h seg vec pos ps idx rem = Inr (Returned ps') \<and>
            map unplaced ps' = map unplaced ps \<and>
            (\<forall>k. idx \<le> k \<and> k < length ps \<longrightarrow>
               smoke_particle.distance (ps ! k) - smoke_particle.distance (ps ! idx) + rem
                 \<le> path_segment.distance seg)) \<or>
         (\<exists>ps' idx'. calculate_while h seg vec pos ps idx rem =
              Inr (Running (ps', idx',
                rem + (smoke_particle.distance (ps ! idx') - smoke_particle.distance (ps ! idx)))) \<and>
            map unplaced ps' = map unplaced ps \<and> idx \<le> idx' \<and> idx' < length ps \<and>
            (\<forall>k. idx \<le> k \<and> k < idx' \<longrightarrow>
               smoke_particle.distance (ps ! k) - smoke_particle.distance (ps ! idx) + rem
                 \<le> path_segment.distance seg) \<and>
            (\<forall>k. idx' \<le> k \<longrightarrow> ps' ! k = ps ! k))"
  using assms
proof (induction h seg vec pos ps idx rem rule: calculate_while.induct)
  case (1 h seg vec pos ps idx rem)
  note inside = \<open>idx < length ps\<close>
  show ?case
  proof (cases "path_segment.distance seg \<ge> rem")
    case False
    then have "calculate_while h seg vec pos ps idx rem = Inr (Running (ps, idx, rem))"
      by (simp add: calculate_while.simps [of h seg vec pos ps idx rem])
    then show ?thesis
      using inside by auto
  next
    case reach: True
    define ps1 where "ps1 = ps[idx := (ps ! idx)\<lparr>position := vector_add pos (setMag h vec rem)\<rparr>]"
    have get: "array_get ps idx = Inr (ps ! idx)"
      using inside by (simp add: array_get_def)
    have un1: "map unplaced ps1 = map unplaced ps"
      using inside by (simp add: ps1_def map_unplaced_update)
    have len1: "length ps1 = length ps"
      by (simp add: ps1_def)
    have d1: "smoke_particle.distance (ps1 ! k) = smoke_particle.distance (ps ! k)"
      if "k < length ps" for k
      using map_unplaced_distance [OF un1 that] .
    show ?thesis
    proof (cases "idx + 1 \<ge> length ps")
      case True
      then have "calculate_while h seg vec pos ps idx rem = Inr (Returned ps1)"
        using reach by (simp add: calculate_while.simps [of h seg vec pos ps idx rem] get Let_def ps1_def)
      moreover have "\<forall>k. idx \<le> k \<and> k < length ps \<longrightarrow> k = idx"
        using True by auto
      ultimately show ?thesis
        using un1 reach by auto
    next
      case False
      then have next_in: "idx + 1 < length ps" by simp
      define rem1 where "rem1 = rem + (smoke_particle.distance (ps1 ! (idx + 1)) -
          smoke_particle.distance (ps1 ! (idx + 1 - 1)))"
      have rem1: "rem1 = rem + (smoke_particle.distance (ps ! (idx + 1)) -
          smoke_particle.distance (ps ! idx))"
        using d1 [OF next_in] d1 [OF inside] by (simp add: rem1_def)
      have step: "calculate_while h seg vec pos ps idx rem =
          calculate_while h seg vec pos ps1 (idx + 1) rem1"
        using reach False
        by (simp add: calculate_while.simps [of h seg vec pos ps idx rem] get Let_def ps1_def rem1_def)
      have ih: "(\<exists>ps'. calculate_while h seg vec pos ps1 (idx + 1) rem1 = Inr (Returned ps') \<and>
            map unplaced ps' = map unplaced ps1 \<and>
            (\<forall>k. idx + 1 \<le> k \<and> k < length ps1 \<longrightarrow>
               smoke_particle.distance (ps1 ! k) - smoke_particle.distance (ps1 ! (idx + 1)) + rem1
                 \<le> path_segment.distance seg)) \<or>
         (\<exists>ps' idx'. calculate_while h seg vec pos ps1 (idx + 1) rem1 =
              Inr (Running (ps', idx',
                rem1 + (smoke_particle.distance (ps1 ! idx') -
                   smoke_particle.distance (ps1 ! (idx + 1))))) \<and>
            map unplaced ps' = map unplaced ps1 \<and> idx + 1 \<le> idx' \<and> idx' < length ps1 \<and>
            (\<forall>k. idx + 1 \<le> k \<and> k < idx' \<longrightarrow>
               smoke_particle.distance (ps1 ! k) - smoke_particle.distance (ps1 ! (idx + 1)) + rem1
                 \<le> path_segment.distance seg) \<and>
            (\<forall>k. idx' \<le> k \<longrightarrow> ps' ! k = ps1 ! k))"
        using "1.IH" [OF reach get refl, of "ps1" "idx + 1"] False len1 next_in
        by (simp add: ps1_def rem1_def Let_def)
      from ih show ?thesis
      proof (elim disjE exE conjE)
        fix ps'
        assume res: "calculate_while h seg vec pos ps1 (idx + 1) rem1 = Inr (Returned ps')"
          and un: "map unplaced ps' = map unplaced ps1"
          and bound: "\<forall>k. idx + 1 \<le> k \<and> k < length ps1 \<longrightarrow>
               smoke_particle.distance (ps1 ! k) - smoke_particle.distance (ps1 ! (idx + 1)) + rem1
                 \<le> path_segment.distance seg"
        have "smoke_particle.distance (ps ! k) - smoke_particle.distance (ps ! idx) + rem
                 \<le> path_segment.distance seg" if k: "idx \<le> k \<and> k < length ps" for k
        proof (cases "k = idx")
          case True
          then show ?thesis using reach by simp
        next
          case False
          then have "idx + 1 \<le> k \<and> k < length ps1" using k len1 by simp
          with bound have "smoke_particle.distance (ps1 ! k) -
              smoke_particle.distance (ps1 ! (idx + 1)) + rem1 \<le> path_segment.distance seg"
            by blast
          then show ?thesis
            using d1 [of k] d1 [OF next_in] k by (simp add: rem1)
        qed
        then show ?thesis
          using res un un1 step by auto
      next
        fix ps' idx'
        assume res: "calculate_while h seg vec pos ps1 (idx + 1) rem1 =
              Inr (Running (ps', idx',
                rem1 + (smoke_particle.distance (ps1 ! idx') -
                   smoke_particle.distance (ps1 ! (idx + 1)))))"
          and un: "map unplaced ps' = map unplaced ps1"
          and lo: "idx + 1 \<le> idx'" and hi: "idx' < length ps1"
          and bound: "\<forall>k. idx + 1 \<le> k \<and> k < idx' \<longrightarrow>
               smoke_particle.distance (ps1 ! k) - smoke_particle.distance (ps1 ! (idx + 1)) + rem1
                 \<le> path_segment.distance seg"
          and rest: "\<forall>k. idx' \<le> k \<longrightarrow> ps' ! k = ps1 ! k"
        have b: "smoke_particle.distance (ps ! k) - smoke_particle.distance (ps ! idx) + rem
                 \<le> path_segment.distance seg" if k: "idx \<le> k \<and> k < idx'" for k
        proof (cases "k = idx")
          case True
          then show ?thesis using reach by simp
        next
          case False
          then have "idx + 1 \<le> k \<and> k < idx'" using k by simp
          moreover have "k < length ps" using k hi len1 by simp
          ultimately have "smoke_particle.distance (ps1 ! k) -
              smoke_particle.distance (ps1 ! (idx + 1)) + rem1 \<le> path_segment.distance seg"
            "k < length ps"
            using bound by blast+
          then show ?thesis
            using d1 [of k] d1 [OF next_in] by (simp add: rem1)
        qed
        have r: "ps' ! k = ps ! k" if "idx' \<le> k" for k
          using rest that lo by (simp add: ps1_def)
        have rm: "rem1 + (smoke_particle.distance (ps1 ! idx') -
                   smoke_particle.distance (ps1 ! (idx + 1))) =
              rem + (smoke_particle.distance (ps ! idx') - smoke_particle.distance (ps ! idx))"
          using d1 [of idx'] d1 [OF next_in] hi len1 by (simp add: rem1)
        have "calculate_while h seg vec pos ps idx rem =
              Inr (Running (ps', idx',
                rem + (smoke_particle.distance (ps ! idx') - smoke_particle.distance (ps ! idx))))"
          using res step rm by simp
        moreover have "idx \<le> idx'" "idx' < length ps"
          using lo hi len1 by simp_all
        ultimately show ?thesis
          using un un1 b r by auto
      qed
    qed
  qed
qed


lemma sum_list_distance_nonneg:
  "\<forall>s\<in>set segs. 0 \<le> path_segment.distance s \<Longrightarrow>
   0 \<le> sum_list (map path_segment.distance segs)"
  by (induction segs) simp_all

lemma calculate_for_cases:
  assumes "idx < length ps"
  shows "(\<exists>ps'. calculate_for h segs pos hdg ps idx rem = Inr (Returned ps') \<and>
            map unplaced ps' = map unplaced ps \<and>
            ((mag_exact h \<and> (\<forall>s\<in>set segs. 0 \<le> path_segment.distance s)) \<longrightarrow>
             (\<forall>k. idx \<le> k \<and> k < length ps \<longrightarrow>
               smoke_particle.distance (ps ! k) - smoke_particle.distance (ps ! idx) + rem
                 \<le> sum_list (map path_segment.distance segs)))) \<or>
         (\<exists>ps' idx'. calculate_for h segs pos hdg ps idx rem =
              Inr (Running (ps', idx', fst (walk pos hdg segs))) \<and>
            map unplaced ps' = map unplaced ps \<and> idx \<le> idx' \<and> idx' < length ps \<and>
            ((mag_exact h \<and> (\<forall>s\<in>set segs. 0 \<le> path_segment.distance s)) \<longrightarrow>
             (\<forall>k. idx \<le> k \<and> k < idx' \<longrightarrow>
               smoke_particle.distance (ps ! k) - smoke_particle.distance (ps ! idx) + rem
                 \<le> sum_list (map path_segment.distance segs))) \<and>
            (\<forall>k. idx' \<le> k \<longrightarrow> ps' ! k = ps ! k))"
  using assms
proof (induction segs arbitrary: pos hdg ps idx rem)
  case Nil
  then show ?case by simp
next
  case (Cons seg rest)
  note inside = \<open>idx < length ps\<close>
  define hdg' where "hdg' = hdg + angle seg"
  define vec where "vec = fromAngle hdg' (path_segment.distance seg)"
  define total where "total = sum_list (map path_segment.distance (seg # rest))"
  have walk_eq: "walk pos hdg (seg # rest) = walk (vector_add pos vec) hdg' rest"
    by (simp add: vec_def hdg'_def)
  have total_ge: "path_segment.distance seg \<le> total"
    and mag_eq: "mag h vec = path_segment.distance seg"
    if "mag_exact h \<and> (\<forall>s\<in>set (seg # rest). 0 \<le> path_segment.distance s)"
    using that sum_list_distance_nonneg [of rest]
    by (simp_all add: total_def vec_def mag_exact_def)
  from calculate_while_cases [OF inside, of h seg vec pos rem] show ?case
  proof (elim disjE exE conjE)
    fix ps1
    assume res: "calculate_while h seg vec pos ps idx rem = Inr (Returned ps1)"
      and un: "map unplaced ps1 = map unplaced ps"
      and bound: "\<forall>k. idx \<le> k \<and> k < length ps \<longrightarrow>
               smoke_particle.distance (ps ! k) - smoke_particle.distance (ps ! idx) + rem
                 \<le> path_segment.distance seg"
    have "calculate_for h (seg # rest) pos hdg ps idx rem = Inr (Returned ps1)"
      using res by (simp add: Let_def vec_def hdg'_def)
    moreover have "smoke_particle.distance (ps ! k) - smoke_particle.distance (ps ! idx) + rem
                 \<le> total"
      if "mag_exact h \<and> (\<forall>s\<in>set (seg # rest). 0 \<le> path_segment.distance s)" "idx \<le> k \<and> k < length ps" for k
      using bound that(2) total_ge [OF that(1)] by fastforce
    ultimately show ?thesis
      using un unfolding total_def by blast
  next
    fix ps1 idx1
    assume res: "calculate_while h seg vec pos ps idx rem =
              Inr (Running (ps1, idx1,
                rem + (smoke_particle.distance (ps ! idx1) - smoke_particle.distance (ps ! idx))))"
      and un: "map unplaced ps1 = map unplaced ps"
      and lo: "idx \<le> idx1" and hi: "idx1 < length ps"
      and bound: "\<forall>k. idx \<le> k \<and> k < idx1 \<longrightarrow>
               smoke_particle.distance (ps ! k) - smoke_particle.distance (ps ! idx) + rem
                 \<le> path_segment.distance seg"
      and rest1: "\<forall>k. idx1 \<le> k \<longrightarrow> ps1 ! k = ps ! k"
    define rem1 where "rem1 = rem +
        (smoke_particle.distance (ps ! idx1) - smoke_particle.distance (ps ! idx)) - mag h vec"
    have len1: "length ps1 = length ps"
      using arg_cong [OF un, of length] by simp
    have step: "calculate_for h (seg # rest) pos hdg ps idx rem =
        calculate_for h rest (vector_add pos vec) hdg' ps1 idx1 rem1"
      using res by (simp add: Let_def vec_def hdg'_def rem1_def)
    have early: "smoke_particle.distance (ps ! k) - smoke_particle.distance (ps ! idx) + rem
                 \<le> total"
      if "mag_exact h \<and> (\<forall>s\<in>set (seg # rest). 0 \<le> path_segment.distance s)" "idx \<le> k \<and> k < idx1" for k
      using bound that(2) total_ge [OF that(1)] by fastforce
    have inside1: "idx1 < length ps1"
      using hi len1 by simp
    from Cons.IH [OF inside1, of "vector_add pos vec" hdg' rem1] show ?thesis
    proof (elim disjE exE conjE)
      fix ps'
      assume res': "calculate_for h rest (vector_add pos vec) hdg' ps1 idx1 rem1 = Inr (Returned ps')"
        and un': "map unplaced ps' = map unplaced ps1"
        and bound': "(mag_exact h \<and> (\<forall>s\<in>set rest. 0 \<le> path_segment.distance s)) \<longrightarrow>
             (\<forall>k. idx1 \<le> k \<and> k < length ps1 \<longrightarrow>
               smoke_particle.distance (ps1 ! k) - smoke_particle.distance (ps1 ! idx1) + rem1
                 \<le> sum_list (map path_segment.distance rest))"
      have "smoke_particle.distance (ps ! k) - smoke_particle.distance (ps ! idx) + rem \<le> total"
        if nn: "mag_exact h \<and> (\<forall>s\<in>set (seg # rest). 0 \<le> path_segment.distance s)"
          and k: "idx \<le> k \<and> k < length ps" for k
      proof (cases "k < idx1")
        case True
        then show ?thesis using early [OF nn] k by simp
      next
        case False
        then have "idx1 \<le> k \<and> k < length ps1" using k len1 by simp
        moreover have "mag_exact h \<and> (\<forall>s\<in>set rest. 0 \<le> path_segment.distance s)"
          using nn by simp
        ultimately have "smoke_particle.distance (ps1 ! k) -
            smoke_particle.distance (ps1 ! idx1) + rem1
              \<le> sum_list (map path_segment.distance rest)"
          using bound' by blast
        moreover have "ps1 ! k = ps ! k" "ps1 ! idx1 = ps ! idx1"
          using rest1 False by simp_all
        ultimately show ?thesis
          using mag_eq [OF nn] by (simp add: rem1_def total_def)
      qed
      then show ?thesis
        using res' un' un step unfolding total_def by auto
    next
      fix ps' idx'
      assume res': "calculate_for h rest (vector_add pos vec) hdg' ps1 idx1 rem1 =
              Inr (Running (ps', idx', fst (walk (vector_add pos vec) hdg' rest)))"
        and un': "map unplaced ps' = map unplaced ps1"
        and lo': "idx1 \<le> idx'" and hi': "idx' < length ps1"
        and bound': "(mag_exact h \<and> (\<forall>s\<in>set rest. 0 \<le> path_segment.distance s)) \<longrightarrow>
             (\<forall>k. idx1 \<le> k \<and> k < idx' \<longrightarrow>
               smoke_particle.distance (ps1 ! k) - smoke_particle.distance (ps1 ! idx1) + rem1
                 \<le> sum_list (map path_segment.distance rest))"
        and rest': "\<forall>k. idx' \<le> k \<longrightarrow> ps' ! k = ps1 ! k"
      have b: "smoke_particle.distance (ps ! k) - smoke_particle.distance (ps ! idx) + rem \<le> total"
        if nn: "mag_exact h \<and> (\<forall>s\<in>set (seg # rest). 0 \<le> path_segment.distance s)"
          and k: "idx \<le> k \<and> k < idx'" for k
      proof (cases "k < idx1")
        case True
        then show ?thesis using early [OF nn] k by simp
      next
        case False
        then have "idx1 \<le> k \<and> k < idx'" using k by simp
        moreover have "mag_exact h \<and> (\<forall>s\<in>set rest. 0 \<le> path_segment.distance s)"
          using nn by simp
        ultimately have "smoke_particle.distance (ps1 ! k) -
            smoke_particle.distance (ps1 ! idx1) + rem1
              \<le> sum_list (map path_segment.distance rest)"
          using bound' by blast
        moreover have "ps1 ! k = ps ! k" "ps1 ! idx1 = ps ! idx1"
          using rest1 False by simp_all
        ultimately show ?thesis
          using mag_eq [OF nn] by (simp add: rem1_def total_def)
      qed
      have r: "ps' ! k = ps ! k" if "idx' \<le> k" for k
        using rest' rest1 that lo' by simp
      have "calculate_for h (seg # rest) pos hdg ps idx rem =
              Inr (Running (ps', idx', fst (walk pos hdg (seg # rest))))"
        using res' step by (simp only: walk_eq)
      moreover have "map unplaced ps' = map unplaced ps" "idx \<le> idx'" "idx' < length ps"
        using un' un lo lo' hi' len1 by simp_all
      ultimately show ?thesis
        using b r unfolding total_def by blast
    qed
  qed
qed

lemma calculate_rest_closed:
  "calculate_rest pos ps i =
     take i ps @
     map (\<lambda>p. if alphaDirection p \<noteq> - 1 then fadeOut (p\<lparr>position := pos\<rparr>)
               else p\<lparr>position := pos\<rparr>) (drop i ps)"
proof (induction pos ps i rule: calculate_rest.induct)
  case (1 pos ps i)
  show ?case
  proof (cases "i < length ps")
    case False
    then show ?thesis
      by (simp add: calculate_rest.simps [of pos ps i])
  next
    case True
    show ?thesis
      using True "1.IH" [OF True refl refl]
      by (simp add: calculate_rest.simps [of pos ps i] Let_def take_Suc_conv_app_nth
          Cons_nth_drop_Suc [symmetric])
  qed
qed


text \<open>
  Where the host's magnitudes are exact and no segment distance is negative,
  \<^verbatim>\<open>calculateParticlePositions\<close> finishes and keeps the number of particles; every
  particle whose distance exceeds the sum of the segment distances gets the path's final
  vertex as its position and is fading out afterwards: \<^verbatim>\<open>fadeOut\<close> is applied to it
  exactly when its alphaDirection was not -1.
\<close>

lemma calculateParticlePositions_overrun_exact:
  assumes "mag_exact h \<and> (\<forall>s\<in>set (segments this). 0 \<le> path_segment.distance s)"
  shows "\<exists>this'. calculateParticlePositions h this = Inr this' \<and>
           length (particles this') = length (particles this) \<and>
           (\<forall>i. i < length (particles this) \<and>
                sum_list (map path_segment.distance (segments this))
                  < smoke_particle.distance (particles this ! i) \<longrightarrow>
              position (particles this' ! i) = position_upto this (length (segments this)) \<and>
              alphaDirection (particles this' ! i) = - 1 \<and>
              alphaDirection (particles this' ! i) \<noteq> 1 \<and>
              particles this' ! i =
                (if alphaDirection (particles this ! i) \<noteq> - 1
                 then fadeOut ((particles this ! i)
                        \<lparr>position := position_upto this (length (segments this))\<rparr>)
                 else (particles this ! i)
                        \<lparr>position := position_upto this (length (segments this))\<rparr>))"
proof (cases "particles this = []")
  case True
  then show ?thesis
    by (simp add: calculateParticlePositions_def)
next
  case False
  define ps where "ps = particles this"
  define final where "final = position_upto this (length (segments this))"
  define total where "total = sum_list (map path_segment.distance (segments this))"
  define pin where "pin = (\<lambda>p. if alphaDirection p \<noteq> - 1 then fadeOut (p\<lparr>position := final\<rparr>)
               else p\<lparr>position := final\<rparr>)"
  have inside: "0 < length ps"
    using False by (simp add: ps_def)
  have final_walk: "fst (walk (originPosition this) (originHeading this) (segments this)) = final"
    using walk_upto [of "length (segments this)" this] by (simp add: final_def)
  have get: "array_get ps 0 = Inr (ps ! 0)"
    using inside by (simp add: array_get_def)
  have pin_props: "position (pin p) = final \<and> alphaDirection (pin p) = - 1 \<and>
      alphaDirection (pin p) \<noteq> 1" for p
    by (simp add: pin_def fadeOut_def)
  from calculate_for_cases [OF inside, of h "segments this" "originPosition this"
      "originHeading this" "smoke_particle.distance (ps ! 0)"]
  show ?thesis
  proof (elim disjE exE conjE)
    fix ps'
    assume res: "calculate_for h (segments this) (originPosition this) (originHeading this) ps 0
          (smoke_particle.distance (ps ! 0)) = Inr (Returned ps')"
      and un: "map unplaced ps' = map unplaced ps"
      and bound: "(mag_exact h \<and> (\<forall>s\<in>set (segments this). 0 \<le> path_segment.distance s)) \<longrightarrow>
             (\<forall>k. 0 \<le> k \<and> k < length ps \<longrightarrow>
               smoke_particle.distance (ps ! k) - smoke_particle.distance (ps ! 0) +
                 smoke_particle.distance (ps ! 0)
                 \<le> sum_list (map path_segment.distance (segments this)))"
    have len: "length ps' = length ps"
      using arg_cong [OF un, of length] by simp
    have none: "\<not> total < smoke_particle.distance (ps ! i)" if "i < length ps" for i
      using bound assms that unfolding total_def by fastforce
    have "calculateParticlePositions h this = Inr (this\<lparr>particles := ps'\<rparr>)"
      using False res get by (simp add: calculateParticlePositions_def ps_def)
    then show ?thesis
      using len none unfolding ps_def total_def by auto
  next
    fix ps' idx'
    assume res: "calculate_for h (segments this) (originPosition this) (originHeading this) ps 0
          (smoke_particle.distance (ps ! 0)) =
           Inr (Running (ps', idx',
             fst (walk (originPosition this) (originHeading this) (segments this))))"
      and un: "map unplaced ps' = map unplaced ps"
      and hi: "idx' < length ps"
      and bound: "(mag_exact h \<and> (\<forall>s\<in>set (segments this). 0 \<le> path_segment.distance s)) \<longrightarrow>
             (\<forall>k. 0 \<le> k \<and> k < idx' \<longrightarrow>
               smoke_particle.distance (ps ! k) - smoke_particle.distance (ps ! 0) +
                 smoke_particle.distance (ps ! 0)
                 \<le> sum_list (map path_segment.distance (segments this)))"
      and rest: "\<forall>k. idx' \<le> k \<longrightarrow> ps' ! k = ps ! k"
    have len: "length ps' = length ps"
      using arg_cong [OF un, of length] by simp
    define out where "out = calculate_rest final ps' idx'"
    have out: "out = take idx' ps' @ map pin (drop idx' ps')"
      by (simp add: out_def calculate_rest_closed pin_def)
    have out_len: "length out = length ps"
      using len by (simp add: out)
    have late: "idx' \<le> i" if "i < length ps" "total < smoke_particle.distance (ps ! i)" for i
    proof (rule ccontr)
      assume "\<not> idx' \<le> i"
      then have "0 \<le> i \<and> i < idx'" by simp
      then have "smoke_particle.distance (ps ! i) \<le> total"
        using bound assms unfolding total_def by fastforce
      then show False using that(2) by simp
    qed
    have pinned: "out ! i = pin (ps ! i)"
      if "i < length ps" "total < smoke_particle.distance (ps ! i)" for i
    proof -
      have le: "idx' \<le> i" using late [OF that] .
      then have "out ! i = pin (ps' ! i)"
        using that(1) len hi by (simp add: out nth_append min_def)
      then show ?thesis using rest le by simp
    qed
    have "calculateParticlePositions h this = Inr (this\<lparr>particles := out\<rparr>)"
      using False res get
      by (simp add: calculateParticlePositions_def ps_def [symmetric] final_walk out_def)
    then show ?thesis
      using out_len pinned pin_props unfolding ps_def total_def final_def [symmetric]
      by (auto simp: pin_def)
  qed
qed


lemma calculateParticlePositions_overrun_exact_example:
  "\<exists>this'. calculateParticlePositions sample_host sample_smoke = Inr this' \<and>
     position (particles this' ! 1) = (2, 0) \<and>
     alphaDirection (particles this' ! 1) = - 1 \<and>
     alpha (particles this' ! 1) = 255"
proof -
  have nonneg: "mag_exact sample_host \<and>
      (\<forall>s\<in>set (segments sample_smoke). 0 \<le> path_segment.distance s)"
    by (simp add: sample_smoke_def mag_exact_def sample_host_def magnitude_fromAngle)
  have over: "1 < length (particles sample_smoke) \<and>
      sum_list (map path_segment.distance (segments sample_smoke))
        < smoke_particle.distance (particles sample_smoke ! 1)"
    by (simp add: sample_smoke_def)
  have final: "position_upto sample_smoke (length (segments sample_smoke)) = (2, 0)"
    by (simp add: sample_smoke_def position_upto_def directional_vector_def heading_upto_def
        fromAngle_def)
  obtain this' where res: "calculateParticlePositions sample_host sample_smoke = Inr this'"
    and pinned: "\<forall>i. i < length (particles sample_smoke) \<and>
                sum_list (map path_segment.distance (segments sample_smoke))
                  < smoke_particle.distance (particles sample_smoke ! i) \<longrightarrow>
              position (particles this' ! i) =
                position_upto sample_smoke (length (segments sample_smoke)) \<and>
              alphaDirection (particles this' ! i) = - 1 \<and>
              alphaDirection (particles this' ! i) \<noteq> 1 \<and>
              particles this' ! i =
                (if alphaDirection (particles sample_smoke ! i) \<noteq> - 1
                 then fadeOut ((particles sample_smoke ! i)
                        \<lparr>position := position_upto sample_smoke (length (segments sample_smoke))\<rparr>)
                 else (particles sample_smoke ! i)
                        \<lparr>position := position_upto sample_smoke (length (segments sample_smoke))\<rparr>)"
    using calculateParticlePositions_overrun_exact [OF nonneg] by blast
  from pinned over have
    "position (particles this' ! 1) =
       position_upto sample_smoke (length (segments sample_smoke)) \<and>
     alphaDirection (particles this' ! 1) = - 1 \<and>
     particles this' ! 1 =
       (if alphaDirection (particles sample_smoke ! 1) \<noteq> - 1
        then fadeOut ((particles sample_smoke ! 1)
               \<lparr>position := position_upto sample_smoke (length (segments sample_smoke))\<rparr>)
        else (particles sample_smoke ! 1)
               \<lparr>position := position_upto sample_smoke (length (segments sample_smoke))\<rparr>)"
    by blast
  then have "position (particles this' ! 1) = (2, 0) \<and>
     alphaDirection (particles this' ! 1) = - 1 \<and> alpha (particles this' ! 1) = 255"
    unfolding final by (simp add: sample_smoke_def fadeOut_def)
  with res show ?thesis by blast
qed


subsection \<open>The end of a particle\<close>

lemma update_stays_dead: "\<not> isAlive p \<Longrightarrow> \<not> isAlive (SmokeParticle_update p time)"
  by (simp add: SmokeParticle_update_def Let_def)

lemma call_stays_dead: "\<not> isAlive p \<Longrightarrow> \<not> isAlive (call p c)"
  by (cases c) (simp_all add: update_stays_dead fadeIn_def fadeOut_def)

lemma calls_stay_dead: "\<not> isAlive p \<Longrightarrow> \<not> isAlive (foldl call p cs)"
  by (induction cs arbitrary: p) (simp_all add: call_stays_dead)

lemma map_unplaced_isAlive:
  assumes "map unplaced ps' = map unplaced ps"
  shows "map isAlive ps' = map isAlive ps"
proof -
  have "map (isAlive \<circ> unplaced) ps' = map (isAlive \<circ> unplaced) ps"
    using arg_cong [OF assms, of "map isAlive"] by simp
  moreover have "isAlive \<circ> unplaced = isAlive"
    by (rule ext) (simp add: unplaced_def)
  ultimately show ?thesis by simp
qed

lemma calculateParticlePositions_isAlive:
  "\<exists>this'. calculateParticlePositions h this = Inr this' \<and>
     map isAlive (particles this') = map isAlive (particles this)"
proof (cases "particles this = []")
  case True
  then show ?thesis
    by (simp add: calculateParticlePositions_def)
next
  case False
  define ps where "ps = particles this"
  have inside: "0 < length ps"
    using False by (simp add: ps_def)
  have get: "array_get ps 0 = Inr (ps ! 0)"
    using inside by (simp add: array_get_def)
  from calculate_for_cases [OF inside, of h "segments this" "originPosition this"
      "originHeading this" "smoke_particle.distance (ps ! 0)"]
  show ?thesis
  proof (elim disjE exE conjE)
    fix ps'
    assume res: "calculate_for h (segments this) (originPosition this) (originHeading this) ps 0
          (smoke_particle.distance (ps ! 0)) = Inr (Returned ps')"
      and un: "map unplaced ps' = map unplaced ps"
    have "calculateParticlePositions h this = Inr (this\<lparr>particles := ps'\<rparr>)"
      using False res get by (simp add: calculateParticlePositions_def ps_def)
    then show ?thesis
      using map_unplaced_isAlive [OF un] by (simp add: ps_def)
  next
    fix ps' idx'
    assume res: "calculate_for h (segments this) (originPosition this) (originHeading this) ps 0
          (smoke_particle.distance (ps ! 0)) =
           Inr (Running (ps', idx',
             fst (walk (originPosition this) (originHeading this) (segments this))))"
      and un: "map unplaced ps' = map unplaced ps"
    define final where
      "final = fst (walk (originPosition this) (originHeading this) (segments this))"
    have "map isAlive (calculate_rest final ps' idx') =
        map isAlive (take idx' ps') @ map isAlive (drop idx' ps')"
      by (simp add: calculate_rest_closed fadeOut_def comp_def)
    also have "\<dots> = map isAlive ps'"
      by (simp only: map_append [symmetric] append_take_drop_id)
    finally have alive: "map isAlive (calculate_rest final ps' idx') = map isAlive ps"
      using map_unplaced_isAlive [OF un] by simp
    have "calculateParticlePositions h this =
        Inr (this\<lparr>particles := calculate_rest final ps' idx'\<rparr>)"
      using False res get
      by (simp add: calculateParticlePositions_def ps_def [symmetric] final_def)
    then show ?thesis
      using alive by (simp add: ps_def)
  qed
qed

lemma filter_update_length:
  "length (filter isAlive (map (\<lambda>p. SmokeParticle_update p time) ps))
     \<le> length (filter isAlive ps)"
proof (induction ps)
  case Nil
  show ?case by simp
next
  case (Cons p ps)
  then show ?case
    using update_stays_dead [of p time] by (cases "isAlive p") auto
qed

lemma Smoke_update_alive:
  "\<exists>this' h'. Smoke_update this h = Inr (this', h') \<and>
     list_all isAlive (particles this') \<and>
     length (particles this') \<le> length (filter isAlive (particles this))"
proof -
  define time where "time = fst (millis h)"
  define kept where
    "kept = filter isAlive (map (\<lambda>p. SmokeParticle_update p time) (particles this))"
  define sorted where "sorted = sort_key smoke_particle.distance kept"
  obtain this' where
    res: "calculateParticlePositions (snd (millis h)) (this\<lparr>particles := sorted\<rparr>) = Inr this'"
    and alive: "map isAlive (particles this') = map isAlive sorted"
    using calculateParticlePositions_isAlive [of "snd (millis h)" "this\<lparr>particles := sorted\<rparr>"]
    by auto
  have upd: "Smoke_update this h = Inr (this', snd (millis h))"
    using res by (simp add: Smoke_update_def Let_def case_prod_beta sorted_def kept_def time_def)
  have "list_all isAlive sorted"
    by (simp add: sorted_def kept_def list_all_iff)
  then have "list_all id (map isAlive sorted)"
    by (simp add: list_all_iff)
  then have "list_all id (map isAlive (particles this'))"
    by (simp only: alive)
  then have all: "list_all isAlive (particles this')"
    by (simp add: list_all_iff)
  have "length (particles this') = length sorted"
    using arg_cong [OF alive, of length] by simp
  also have "\<dots> = length kept"
    by (simp add: sorted_def)
  also have "\<dots> \<le> length (filter isAlive (particles this))"
    unfolding kept_def by (rule filter_update_length)
  finally show ?thesis
    using upd all by blast
qed

text \<open>
  C6. When an update takes a fading-out particle's alpha to 0, the particle has alpha 0,
  alphaDirection 0 and isAlive false; after that no sequence of writes to it (updates,
  fadeIn, fadeOut, position assignments) makes isAlive true again. No Smoke operation
  does either: \<^verbatim>\<open>calculateParticlePositions\<close> leaves every isAlive flag as it is,
  and \<^verbatim>\<open>Smoke.update\<close> keeps only particles that are alive, never more than were
  alive before.
\<close>

theorem dead_particle_stays_dead:
  assumes "alphaDirection p = - 1" and "time \<noteq> lastTime p"
    and "alpha p - 300 * ((time - lastTime p) / 1000) \<le> 0"
  shows "\<not> isAlive (SmokeParticle_update p time) \<and>
         alpha (SmokeParticle_update p time) = 0 \<and>
         alphaDirection (SmokeParticle_update p time) = 0 \<and>
         (\<forall>calls. \<not> isAlive (foldl call (SmokeParticle_update p time) calls)) \<and>
         (\<forall>h this. \<exists>this'. calculateParticlePositions h this = Inr this' \<and>
            map isAlive (particles this') = map isAlive (particles this)) \<and>
         (\<forall>this h. \<exists>this' h'. Smoke_update this h = Inr (this', h') \<and>
            list_all isAlive (particles this') \<and>
            length (particles this') \<le> length (filter isAlive (particles this)))"
proof -
  have dead: "\<not> isAlive (SmokeParticle_update p time) \<and>
         alpha (SmokeParticle_update p time) = 0 \<and>
         alphaDirection (SmokeParticle_update p time) = 0"
    using assms by (simp add: SmokeParticle_update_def Let_def)
  then have "\<forall>calls. \<not> isAlive (foldl call (SmokeParticle_update p time) calls)"
    by (simp add: calls_stay_dead)
  with dead show ?thesis
    using calculateParticlePositions_isAlive Smoke_update_alive by blast
qed


theorem dead_particle_stays_dead_witness:
  "isAlive fading_particle \<and>
   \<not> isAlive (SmokeParticle_update fading_particle 1000) \<and>
   alpha (SmokeParticle_update fading_particle 1000) = 0 \<and>
   alphaDirection (SmokeParticle_update fading_particle 1000) = 0 \<and>
   \<not> isAlive (foldl call (SmokeParticle_update fading_particle 1000)
        [Update 2000, FadeIn, Update 3000, FadeOut, SetPosition (1, 1), Update 9000])"
proof -
  have "alphaDirection fading_particle = - 1" and "1000 \<noteq> lastTime fading_particle"
    and "alpha fading_particle - 300 * ((1000 - lastTime fading_particle) / 1000) \<le> 0"
    by (simp_all add: fading_particle_def)
  from dead_particle_stays_dead [OF this]
  have "\<not> isAlive (SmokeParticle_update fading_particle 1000) \<and>
      alpha (SmokeParticle_update fading_particle 1000) = 0 \<and>
      alphaDirection (SmokeParticle_update fading_particle 1000) = 0 \<and>
      \<not> isAlive (foldl call (SmokeParticle_update fading_particle 1000)
        [Update 2000, FadeIn, Update 3000, FadeOut, SetPosition (1, 1), Update 9000])"
    by blast
  moreover have "isAlive fading_particle"
    by (simp add: fading_particle_def)
  ultimately show ?thesis by blast
qed

subsection \<open>Path.copy and Path.addSegment\<close>

lemma is_segment_allocated:
  "store_ok st \<Longrightarrow> is_segment st r \<Longrightarrow> r < next_ref st"
  by (rule ccontr) (simp add: store_ok_def is_segment_def not_less)

lemma allocated_below:
  "store_ok st \<Longrightarrow> objects st r = Some obj \<Longrightarrow> r < next_ref st"
  by (rule ccontr) (simp add: store_ok_def not_less)

lemma Path_copy_forEach_result:
  assumes "store_ok st"
    and "objects st (Path.segments path) = Some (ArrayObj acc)"
    and "list_all (is_segment st) rs"
  shows "\<exists>st' cs. Path_copy_forEach rs path st = Inr st' \<and>
           store_ok st' \<and> next_ref st \<le> next_ref st' \<and>
           objects st' (Path.segments path) = Some (ArrayObj (acc @ cs)) \<and>
           length cs = length rs \<and>
           map (objects st') cs = map (objects st) rs \<and>
           (\<forall>c\<in>set cs. next_ref st \<le> c) \<and>
           (\<forall>r. r < next_ref st \<and> r \<noteq> Path.segments path \<longrightarrow> objects st' r = objects st r)"
  using assms
proof (induction rs arbitrary: st acc)
  case Nil
  then show ?case by simp
next
  case (Cons seg rest)
  define a where "a = Path.segments path"
  define c where "c = next_ref st"
  have arr: "objects st a = Some (ArrayObj acc)"
    using Cons.prems(2) by (simp add: a_def)
  have a_lt: "a < c"
    using allocated_below [OF Cons.prems(1) arr] by (simp add: c_def)
  obtain ang d where seg: "objects st seg = Some (PathSegmentObj ang d)"
    using Cons.prems(3) by (auto simp: is_segment_def split: option.splits object.splits)
  define st1 where "st1 = snd (alloc (PathSegmentObj ang d) st)"
  have copy: "PathSegment_copy seg st = Inr (c, st1)"
    by (simp add: PathSegment_copy_def seg alloc_def st1_def c_def)
  have obj1: "objects st1 = (objects st)(c \<mapsto> PathSegmentObj ang d)"
    and next1: "next_ref st1 = Suc c"
    by (simp_all add: st1_def alloc_def c_def)
  define st2 where "st2 = st1\<lparr>objects := (objects st1)(a \<mapsto> ArrayObj (acc @ [c]))\<rparr>"
  have add: "Path_addSegment path c st1 = Inr st2"
    using arr a_lt by (simp add: Path_addSegment_def a_def [symmetric] obj1 st2_def)
  have obj2: "objects st2 = (objects st)(c \<mapsto> PathSegmentObj ang d, a \<mapsto> ArrayObj (acc @ [c]))"
    and next2: "next_ref st2 = Suc c"
    by (simp_all add: st2_def obj1 next1)
  have ok2: "store_ok st2"
    using Cons.prems(1) a_lt by (simp add: store_ok_def obj2 next2 c_def)
  have arr2: "objects st2 (Path.segments path) = Some (ArrayObj (acc @ [c]))"
    by (simp add: obj2 a_def)
  have keep: "objects st2 r = objects st r" if "r < c" "r \<noteq> a" for r
    using that by (simp add: obj2)
  have seg_ne: "r \<noteq> a" if "is_segment st r" for r
    using that arr by (auto simp: is_segment_def)
  have segs2: "list_all (is_segment st2) rest"
    unfolding list_all_iff
  proof
    fix r assume r: "r \<in> set rest"
    then have is_seg: "is_segment st r"
      using Cons.prems(3) by (simp add: list_all_iff)
    then have "objects st2 r = objects st r"
      using keep [of r] is_segment_allocated [OF Cons.prems(1) is_seg] seg_ne [OF is_seg]
      by (simp add: c_def)
    then show "is_segment st2 r"
      using is_seg by (simp add: is_segment_def)
  qed
  have same_rest: "map (objects st2) rest = map (objects st) rest"
  proof (rule map_cong [OF refl])
    fix r assume r: "r \<in> set rest"
    then have is_seg: "is_segment st r"
      using Cons.prems(3) by (simp add: list_all_iff)
    show "objects st2 r = objects st r"
      using keep [of r] is_segment_allocated [OF Cons.prems(1) is_seg] seg_ne [OF is_seg]
      by (simp add: c_def)
  qed
  obtain st' cs where res: "Path_copy_forEach rest path st2 = Inr st'"
    and ok': "store_ok st'" and mono: "next_ref st2 \<le> next_ref st'"
    and arr': "objects st' (Path.segments path) = Some (ArrayObj ((acc @ [c]) @ cs))"
    and len: "length cs = length rest"
    and vals: "map (objects st') cs = map (objects st2) rest"
    and fresh: "\<forall>c'\<in>set cs. next_ref st2 \<le> c'"
    and frame: "\<forall>r. r < next_ref st2 \<and> r \<noteq> Path.segments path \<longrightarrow> objects st' r = objects st2 r"
    using Cons.IH [OF ok2 arr2 segs2] by blast
  have c_val: "objects st' c = objects st seg"
    using frame a_lt by (simp add: next2 a_def [symmetric] obj2 seg)
  have "Path_copy_forEach (seg # rest) path st = Inr st'"
    by (simp add: copy add res)
  moreover have "next_ref st \<le> next_ref st'"
    using mono by (simp add: next2 c_def)
  moreover have "objects st' (Path.segments path) = Some (ArrayObj (acc @ (c # cs)))"
    using arr' by simp
  moreover have "length (c # cs) = length (seg # rest)"
    using len by simp
  moreover have "map (objects st') (c # cs) = map (objects st) (seg # rest)"
    using vals same_rest c_val by simp
  moreover have "\<forall>c'\<in>set (c # cs). next_ref st \<le> c'"
    using fresh by (auto simp: next2 c_def)
  moreover have "\<forall>r. r < next_ref st \<and> r \<noteq> Path.segments path \<longrightarrow> objects st' r = objects st r"
    using frame keep by (simp add: next2 c_def a_def)
  ultimately show ?case
    using ok' by blast
qed


text \<open>
  C7. \<^verbatim>\<open>Path.copy\<close> returns a new Path whose originPosition is the same object as
  the original's (the same address, with the same content) and whose segment array is a
  different array holding new segment objects with the values of the original's, in
  order. \<^verbatim>\<open>addSegment\<close> on the copy leaves the original's segment sequence
  unchanged, and \<^verbatim>\<open>addSegment\<close> on the original leaves the copy's unchanged.
\<close>

theorem Path_copy_independent:
  assumes "store_ok st" and "Path_ok this st"
  shows "\<exists>path st' rs cs.
           Path_copy this st = Inr (path, st') \<and>
           Path.originPosition path = Path.originPosition this \<and>
           objects st' (Path.originPosition path) = objects st (Path.originPosition this) \<and>
           Path.originHeading path = Path.originHeading this \<and>
           Path.segments path \<noteq> Path.segments this \<and>
           segment_refs this st = Some rs \<and>
           segment_refs this st' = Some rs \<and>
           segment_refs path st' = Some cs \<and>
           length cs = length rs \<and>
           map (objects st') cs = map (objects st) rs \<and>
           map (objects st') rs = map (objects st) rs \<and>
           set cs \<inter> set rs = {} \<and>
           (\<forall>segment. \<exists>st''. Path_addSegment path segment st' = Inr st'' \<and>
              segment_refs path st'' = Some (cs @ [segment]) \<and>
              segment_refs this st'' = Some rs) \<and>
           (\<forall>segment. \<exists>st''. Path_addSegment this segment st' = Inr st'' \<and>
              segment_refs this st'' = Some (rs @ [segment]) \<and>
              segment_refs path st'' = Some cs)"
proof -
  define n where "n = next_ref st"
  define a where "a = Path.segments this"
  define st1 where "st1 = snd (Path_new st)"
  define path where
    "path = \<lparr>Path.originPosition = Path.originPosition this,
             Path.originHeading = Path.originHeading this, Path.segments = Suc n\<rparr>"
  obtain rs where arr: "objects st a = Some (ArrayObj rs)"
    and segs: "list_all (is_segment st) rs"
    using assms(2)
    by (auto simp: Path_ok_def segment_refs_def a_def split: option.splits object.splits)
  have refs: "segment_refs this st = Some rs"
    using arr by (simp add: segment_refs_def a_def)
  have a_lt: "a < n"
    using allocated_below [OF assms(1) arr] by (simp add: n_def)
  have rs_lt: "r < n" if "r \<in> set rs" for r
    using is_segment_allocated [OF assms(1)] segs that by (simp add: list_all_iff n_def)
  have origin_lt: "Path.originPosition this < n"
    using assms by (rule_tac ccontr)
      (simp add: Path_ok_def is_vector_def store_ok_def not_less n_def)
  have new: "Path_new st =
      (\<lparr>Path.originPosition = n, Path.originHeading = 0, Path.segments = Suc n\<rparr>, st1)"
    by (simp add: Path_new_def alloc_def st1_def n_def)
  have obj1: "objects st1 = (objects st)(n \<mapsto> VectorObj 0 0, Suc n \<mapsto> ArrayObj [])"
    and next1: "next_ref st1 = Suc (Suc n)"
    by (simp_all add: st1_def Path_new_def alloc_def n_def)
  have ok1: "store_ok st1"
    using assms(1) by (simp add: store_ok_def obj1 next1 n_def)
  have keep1: "objects st1 r = objects st r" if "r < n" for r
    using that by (simp add: obj1)
  have arr1: "objects st1 (Path.segments path) = Some (ArrayObj [])"
    by (simp add: obj1 path_def)
  have this1: "objects st1 (Path.segments this) = Some (ArrayObj rs)"
    using keep1 [OF a_lt] arr by (simp add: a_def)
  have segs1: "list_all (is_segment st1) rs"
    using segs rs_lt keep1 by (simp add: list_all_iff is_segment_def)
  have vals1: "map (objects st1) rs = map (objects st) rs"
    using rs_lt keep1 by simp
  obtain st' cs where each: "Path_copy_forEach rs path st1 = Inr st'"
    and arr': "objects st' (Path.segments path) = Some (ArrayObj ([] @ cs))"
    and len: "length cs = length rs"
    and vals: "map (objects st') cs = map (objects st1) rs"
    and fresh: "\<forall>c\<in>set cs. next_ref st1 \<le> c"
    and frame: "\<forall>r. r < next_ref st1 \<and> r \<noteq> Path.segments path \<longrightarrow> objects st' r = objects st1 r"
    using Path_copy_forEach_result [OF ok1 arr1 segs1] by blast
  have keep: "objects st' r = objects st r" if "r < n" for r
    using frame keep1 [OF that] that by (simp add: next1 path_def)
  have copy: "Path_copy this st = Inr (path, st')"
    using each this1 by (simp add: Path_copy_def new path_def)
  have arr_copy: "objects st' (Suc n) = Some (ArrayObj cs)"
    using arr' by (simp add: path_def)
  have arr_this: "objects st' a = Some (ArrayObj rs)"
    using keep [OF a_lt] arr by simp
  have disjoint: "set cs \<inter> set rs = {}"
    using fresh rs_lt by (fastforce simp: next1)
  have add_copy: "\<exists>st''. Path_addSegment path segment st' = Inr st'' \<and>
              segment_refs path st'' = Some (cs @ [segment]) \<and>
              segment_refs this st'' = Some rs" for segment
    using arr_copy arr_this a_lt
    by (simp add: Path_addSegment_def segment_refs_def path_def a_def [symmetric])
  have add_this: "\<exists>st''. Path_addSegment this segment st' = Inr st'' \<and>
              segment_refs this st'' = Some (rs @ [segment]) \<and>
              segment_refs path st'' = Some cs" for segment
    using arr_copy arr_this a_lt
    by (simp add: Path_addSegment_def segment_refs_def path_def a_def [symmetric])
  have "Path.originPosition path = Path.originPosition this"
    and "objects st' (Path.originPosition path) = objects st (Path.originPosition this)"
    and "Path.originHeading path = Path.originHeading this"
    and "Path.segments path \<noteq> Path.segments this"
    and "segment_refs this st' = Some rs"
    and "segment_refs path st' = Some cs"
    and "map (objects st') cs = map (objects st) rs"
    and "map (objects st') rs = map (objects st) rs"
    using keep [OF origin_lt] a_lt arr_this arr_copy vals vals1 rs_lt keep
    by (simp_all add: path_def segment_refs_def a_def [symmetric])
  with copy refs len disjoint add_copy add_this show ?thesis
    by blast
qed


theorem Path_copy_independent_witness:
  "store_ok sample_store \<and> Path_ok sample_path sample_store \<and>
   (\<exists>path st' cs.
      Path_copy sample_path sample_store = Inr (path, st') \<and>
      Path.originPosition path = 0 \<and>
      objects st' 0 = Some (VectorObj 1 2) \<and>
      Path.segments path \<noteq> 1 \<and>
      segment_refs sample_path st' = Some [2, 3] \<and>
      segment_refs path st' = Some cs \<and>
      map (objects st') cs = [Some (PathSegmentObj 0 2), Some (PathSegmentObj 1 2)] \<and>
      set cs \<inter> {2, 3} = {} \<and>
      (\<exists>st''. Path_addSegment path 3 st' = Inr st'' \<and>
         segment_refs path st'' = Some (cs @ [3]) \<and>
         segment_refs sample_path st'' = Some [2, 3]) \<and>
      (\<exists>st''. Path_addSegment sample_path 3 st' = Inr st'' \<and>
         segment_refs sample_path st'' = Some [2, 3, 3] \<and>
         segment_refs path st'' = Some cs))"
proof -
  have ok: "store_ok sample_store"
    by (simp add: store_ok_def sample_store_def)
  have path_ok: "Path_ok sample_path sample_store"
    by (simp add: Path_ok_def is_vector_def is_segment_def segment_refs_def sample_path_def
        sample_store_def)
  have refs: "segment_refs sample_path sample_store = Some [2, 3]"
    by (simp add: segment_refs_def sample_path_def sample_store_def)
  have origin: "Path.originPosition sample_path = 0"
    "objects sample_store 0 = Some (VectorObj 1 2)"
    "Path.segments sample_path = 1"
    "map (objects sample_store) [2, 3] = [Some (PathSegmentObj 0 2), Some (PathSegmentObj 1 2)]"
    by (simp_all add: sample_path_def sample_store_def)
  from Path_copy_independent [OF ok path_ok] obtain path st' rs cs where
    "Path_copy sample_path sample_store = Inr (path, st')"
    "Path.originPosition path = Path.originPosition sample_path"
    "objects st' (Path.originPosition path) = objects sample_store (Path.originPosition sample_path)"
    "Path.segments path \<noteq> Path.segments sample_path"
    "segment_refs sample_path sample_store = Some rs"
    "segment_refs sample_path st' = Some rs"
    "segment_refs path st' = Some cs"
    "map (objects st') cs = map (objects sample_store) rs"
    "set cs \<inter> set rs = {}"
    "\<forall>segment. \<exists>st''. Path_addSegment path segment st' = Inr st'' \<and>
              segment_refs path st'' = Some (cs @ [segment]) \<and>
              segment_refs sample_path st'' = Some rs"
    "\<forall>segment. \<exists>st''. Path_addSegment sample_path segment st' = Inr st'' \<and>
              segment_refs sample_path st'' = Some (rs @ [segment]) \<and>
              segment_refs path st'' = Some cs"
    by blast
  then show ?thesis
    using ok path_ok refs origin by auto
qed

end
